theory Spec2Isabelle
  imports Main "HOL-Library.Word"
begin

unbundle bit_operations_syntax

section \<open>Values shared by the whole program\<close>

type_synonym byte = "8 word"

text \<open>
  A Go \<open>error\<close> value. \<open>errors.New\<close> and a \<open>fmt.Errorf\<close> without verbs give an
  \<open>ErrorString\<close>; \<open>Errorf prefix err\<close> is \<open>fmt.Errorf(prefix + "%v", err)\<close>, the message
  of \<open>err\<close> behind a prefix; \<open>net/url\<close> wraps its failures as
  \<open>&url.Error{Op, URL, Err}\<close> and has the error types \<open>EscapeError\<close> and
  \<open>InvalidHostError\<close>.
\<close>

datatype error =
    ErrorString string
  | Errorf string error
  | URLError string string error
  | EscapeError string
  | InvalidHostError string

text \<open>
  A Go call either panics with a value or returns. \<open>computeHashes\<close> returns the pair
  \<open>(HashResponse, error)\<close>, which is the sum \<open>error + HashResponse\<close> inside \<open>Return\<close>.
\<close>

datatype 'a outcome = Panic error | Return 'a

definition index_out_of_range :: error where
  "index_out_of_range = ErrorString ''runtime error: index out of range''"

definition slice_out_of_range :: error where
  "slice_out_of_range = ErrorString ''runtime error: slice bounds out of range''"

definition nil_dereference :: error where
  "nil_dereference =
     ErrorString ''runtime error: invalid memory address or nil pointer dereference''"

text \<open>\<open>xs[i]\<close> and \<open>xs[i] = v\<close> on a slice, with the index an \<open>int\<close> as in Go.\<close>

definition index :: "'a list \<Rightarrow> int \<Rightarrow> 'a outcome" where
  "index xs i =
     (if 0 \<le> i \<and> i < int (length xs) then Return (xs ! nat i) else Panic index_out_of_range)"

definition assign :: "'a list \<Rightarrow> int \<Rightarrow> 'a \<Rightarrow> 'a list outcome" where
  "assign xs i v =
     (if 0 \<le> i \<and> i < int (length xs) then Return (xs[nat i := v])
      else Panic index_out_of_range)"

text \<open>\<open>s[:n]\<close> on a string.\<close>

definition slice_to :: "string \<Rightarrow> nat \<Rightarrow> string outcome" where
  "slice_to s n = (if n \<le> length s then Return (take n s) else Panic slice_out_of_range)"

text \<open>\<open>for i := range n\<close> over an integer: \<open>0, 1, ..., n - 1\<close>, no iteration when \<open>n \<le> 0\<close>.\<close>

definition rangeInt :: "int \<Rightarrow> int list" where
  "rangeInt n = map int [0..<nat n]"

fun forRange :: "int list \<Rightarrow> (int \<Rightarrow> 's \<Rightarrow> 's outcome) \<Rightarrow> 's \<Rightarrow> 's outcome" where
  "forRange [] body s = Return s"
| "forRange (i # rest) body s =
     (case body i s of Panic e \<Rightarrow> Panic e | Return s' \<Rightarrow> forRange rest body s')"

section \<open>The parts of Go's standard library the program calls\<close>

subsection \<open>\<open>strings.ToLower\<close>\<close>

text \<open>On the ASCII letters; every other byte is kept.\<close>

definition toLowerChar :: "char \<Rightarrow> char" where
  "toLowerChar c =
     (let n = (of_char c :: nat) in if 65 \<le> n \<and> n \<le> 90 then char_of (n + 32) else c)"

definition ToLower :: "string \<Rightarrow> string" where
  "ToLower s = map toLowerChar s"

subsection \<open>\<open>encoding/hex\<close> and \<open>encoding/binary\<close>\<close>

definition hextable :: string where
  "hextable = ''0123456789abcdef''"

text \<open>
  \<open>hex.EncodeToString\<close>: two characters of \<open>hextable\<close> for each byte, the high nibble
  first.
\<close>

definition hex_EncodeToString :: "byte list \<Rightarrow> string" where
  "hex_EncodeToString src =
     concat (map (\<lambda>v. [hextable ! unat (drop_bit 4 v), hextable ! unat (v AND 0x0f)]) src)"

text \<open>
  \<open>binary.BigEndian.PutUint32(b[off:], v)\<close>: the four bytes of \<open>v\<close>, most significant
  first, written into the array that \<open>b\<close> shares with the slice \<open>b[off:]\<close>. Slicing
  beyond the length panics, and so does a slice shorter than four bytes.
\<close>

definition PutUint32 :: "byte list \<Rightarrow> nat \<Rightarrow> 32 word \<Rightarrow> byte list outcome" where
  "PutUint32 b off v =
     (if length b < off then Panic slice_out_of_range
      else if length b - off < 4 then Panic index_out_of_range
      else Return (b[off := ucast (drop_bit 24 v), off + 1 := ucast (drop_bit 16 v),
                     off + 2 := ucast (drop_bit 8 v), off + 3 := ucast v]))"

subsection \<open>\<open>crypto/sha256\<close>\<close>

text \<open>
  \<open>sha256.Sum256\<close> returns a \<open>[32]byte\<close>: an array whose length is part of its type.
\<close>

typedef digest = "{bs :: byte list. length bs = 32}"
  by (rule exI [of _ "replicate 32 0"]) simp

subsection \<open>\<open>image\<close>\<close>

record Point =
  X :: int
  Y :: int

record Rectangle =
  Min_pt :: Point
  Max_pt :: Point

definition Dx :: "Rectangle \<Rightarrow> int" where
  "Dx r = X (Max_pt r) - X (Min_pt r)"

definition Dy :: "Rectangle \<Rightarrow> int" where
  "Dy r = Y (Max_pt r) - Y (Min_pt r)"

text \<open>\<open>image.NRGBA\<close>: four bytes per pixel, R, G, B, A, not premultiplied.\<close>

record NRGBA =
  Pix :: "byte list"
  Stride :: int
  Rect :: Rectangle

definition PixOffset :: "NRGBA \<Rightarrow> int \<Rightarrow> int \<Rightarrow> int" where
  "PixOffset p x y = (y - Y (Min_pt (Rect p))) * Stride p + (x - X (Min_pt (Rect p))) * 4"

text \<open>
  The functions of the libraries that are taken as they are: the image decoders
  registered with \<open>image.Decode\<close>, \<open>Bounds\<close> of the decoded image, \<open>draw.Draw\<close> with
  the operator \<open>draw.Src\<close> onto an \<open>NRGBA\<close> destination (it returns the destination's
  new \<open>Pix\<close>), \<open>imaging.Encode\<close> with the format \<open>imaging.PNG\<close>, and \<open>sha256.Sum256\<close>.
  \<open>'img\<close> is the decoded image behind the interface \<open>image.Image\<close>.
\<close>

record 'img stdlib =
  image_Decode :: "byte list \<Rightarrow> error + ('img \<times> string)"
  Bounds :: "'img \<Rightarrow> Rectangle"
  draw_Src :: "NRGBA \<Rightarrow> Rectangle \<Rightarrow> 'img \<Rightarrow> Point \<Rightarrow> byte list"
  imaging_Encode_PNG :: "'img \<Rightarrow> error + byte list"
  sha256_Sum256 :: "byte list \<Rightarrow> digest"

subsection \<open>The heap\<close>

text \<open>
  \<open>img\<close> and \<open>rgba\<close> are pointers. The objects they point to live in a store, a list
  indexed by address; allocation appends. A decoded image is an \<open>ImageObj\<close>, the copy
  made by \<open>image.NewNRGBA\<close> an \<open>NRGBAObj\<close>.
\<close>

datatype 'img object = ImageObj 'img | NRGBAObj NRGBA

type_synonym 'img store = "'img object list"

definition alloc :: "'img store \<Rightarrow> 'img object \<Rightarrow> nat \<times> 'img store" where
  "alloc s obj = (length s, s @ [obj])"

definition loadImage :: "'img store \<Rightarrow> nat \<Rightarrow> 'img outcome" where
  "loadImage s a =
     (if a < length s then (case s ! a of ImageObj i \<Rightarrow> Return i | NRGBAObj _ \<Rightarrow> Panic nil_dereference)
      else Panic nil_dereference)"

definition loadNRGBA :: "'img store \<Rightarrow> nat \<Rightarrow> NRGBA outcome" where
  "loadNRGBA s a =
     (if a < length s then (case s ! a of NRGBAObj p \<Rightarrow> Return p | ImageObj _ \<Rightarrow> Panic nil_dereference)
      else Panic nil_dereference)"

definition max_int :: int where
  "max_int = 2 ^ 63 - 1"

text \<open>
  \<open>image.NewNRGBA(r)\<close>: a zeroed buffer of \<open>4 * r.Dx() * r.Dy()\<close> bytes; it panics when a
  dimension is negative or the length overflows \<open>int\<close>.
\<close>

definition NewNRGBA :: "'img store \<Rightarrow> Rectangle \<Rightarrow> (nat \<times> 'img store) outcome" where
  "NewNRGBA s r =
     (if Dx r < 0 \<or> Dy r < 0 \<or> max_int < 4 * Dx r * Dy r
      then Panic (ErrorString ''image: NewNRGBA Rectangle has huge or negative dimensions'')
      else Return (alloc s (NRGBAObj \<lparr>Pix = replicate (nat (4 * Dx r * Dy r)) 0,
                                      Stride = 4 * Dx r, Rect = r\<rparr>)))"

text \<open>\<open>draw.Draw(dst, r, src, sp, draw.Src)\<close> writes the pixels of the object at \<open>dst\<close>.\<close>

definition draw_Draw ::
  "'img stdlib \<Rightarrow> 'img store \<Rightarrow> nat \<Rightarrow> Rectangle \<Rightarrow> nat \<Rightarrow> Point \<Rightarrow> 'img store outcome" where
  "draw_Draw L s dst r src sp =
     (case loadNRGBA s dst of Panic e \<Rightarrow> Panic e
      | Return d \<Rightarrow>
          (case loadImage s src of Panic e \<Rightarrow> Panic e
           | Return i \<Rightarrow> Return (s[dst := NRGBAObj (d\<lparr>Pix := draw_Src L d r i sp\<rparr>)])))"

text \<open>\<open>imaging.Encode(buffer, img, imaging.PNG)\<close> reads the object at \<open>img\<close>.\<close>

definition imaging_Encode :: "'img stdlib \<Rightarrow> 'img store \<Rightarrow> nat \<Rightarrow> (error + byte list) outcome" where
  "imaging_Encode L s img =
     (case loadImage s img of Panic e \<Rightarrow> Panic e
      | Return i \<Rightarrow> Return (imaging_Encode_PNG L i))"

subsection \<open>\<open>strings\<close>\<close>

definition Contains :: "string \<Rightarrow> char \<Rightarrow> bool" where
  "Contains s c \<longleftrightarrow> c \<in> set s"

text \<open>\<open>strings.Cut(s, sep)\<close> for a separator of one byte: before and after its first occurrence.\<close>

definition Cut :: "string \<Rightarrow> char \<Rightarrow> string \<times> string" where
  "Cut s c = (takeWhile (\<lambda>d. d \<noteq> c) s, drop 1 (dropWhile (\<lambda>d. d \<noteq> c) s))"

definition HasPrefix :: "string \<Rightarrow> string \<Rightarrow> bool" where
  "HasPrefix s p \<longleftrightarrow> take (length p) s = p"

definition HasSuffix :: "string \<Rightarrow> string \<Rightarrow> bool" where
  "HasSuffix s p \<longleftrightarrow> length p \<le> length s \<and> drop (length s - length p) s = p"

definition Count :: "string \<Rightarrow> char \<Rightarrow> nat" where
  "Count s c = length (filter (\<lambda>d. d = c) s)"

text \<open>\<open>strings.Index\<close> and \<open>strings.LastIndex\<close>, with \<open>-1\<close> when there is no occurrence.\<close>

fun IndexFrom :: "nat \<Rightarrow> string \<Rightarrow> string \<Rightarrow> int" where
  "IndexFrom n [] sub = (if sub = [] then int n else - 1)"
| "IndexFrom n (c # cs) sub =
     (if take (length sub) (c # cs) = sub then int n else IndexFrom (Suc n) cs sub)"

definition Index :: "string \<Rightarrow> string \<Rightarrow> int" where
  "Index s sub = IndexFrom 0 s sub"

definition LastIndex :: "string \<Rightarrow> char \<Rightarrow> int" where
  "LastIndex s c =
     (if c \<in> set s then int (length s) - 1 - int (length (takeWhile (\<lambda>d. d \<noteq> c) (rev s)))
      else - 1)"

subsection \<open>\<open>net/url\<close>\<close>

text \<open>
  \<open>url.Parse\<close> and \<open>(*URL).String\<close> with the functions they call, as of Go 1.24, the
  release whose \<open>strings.SplitSeq\<close> the program needs. A string is a list of bytes.
\<close>

record Userinfo =
  username :: string
  password :: string
  passwordSet :: bool

record URL =
  Scheme :: string
  Opaque :: string
  User :: "Userinfo option"
  Host :: string
  Path :: string
  RawPath :: string
  OmitHost :: bool
  ForceQuery :: bool
  RawQuery :: string
  Fragment :: string
  RawFragment :: string

definition emptyURL :: URL where
  "emptyURL = \<lparr>Scheme = [], Opaque = [], User = None, Host = [], Path = [], RawPath = [],
                OmitHost = False, ForceQuery = False, RawQuery = [], Fragment = [],
                RawFragment = []\<rparr>"

datatype encoding =
    encodePath | encodePathSegment | encodeHost | encodeZone | encodeUserPassword
  | encodeQueryComponent | encodeFragment

definition ord :: "char \<Rightarrow> nat" where
  "ord c = of_char c"

definition isLetter :: "char \<Rightarrow> bool" where
  "isLetter c \<longleftrightarrow> 97 \<le> ord c \<and> ord c \<le> 122 \<or> 65 \<le> ord c \<and> ord c \<le> 90"

definition isDigit :: "char \<Rightarrow> bool" where
  "isDigit c \<longleftrightarrow> 48 \<le> ord c \<and> ord c \<le> 57"

definition ishex :: "char \<Rightarrow> bool" where
  "ishex c \<longleftrightarrow>
     isDigit c \<or> 97 \<le> ord c \<and> ord c \<le> 102 \<or> 65 \<le> ord c \<and> ord c \<le> 70"

definition unhex :: "char \<Rightarrow> nat" where
  "unhex c =
     (if isDigit c then ord c - 48
      else if 97 \<le> ord c \<and> ord c \<le> 102 then ord c - 97 + 10
      else if 65 \<le> ord c \<and> ord c \<le> 70 then ord c - 65 + 10
      else 0)"

definition upperhex :: string where
  "upperhex = ''0123456789ABCDEF''"

definition hostSubDelims :: string where
  "hostSubDelims = ''!$&()*+,;=:[]<>'' @ [CHR 0x27, CHR 0x22]"

definition shouldEscape :: "char \<Rightarrow> encoding \<Rightarrow> bool" where
  "shouldEscape c mode =
     (if isLetter c \<or> isDigit c then False
      else if (mode = encodeHost \<or> mode = encodeZone) \<and> c \<in> set hostSubDelims then False
      else if c \<in> set ''-_.~'' then False
      else if c \<in> set ''$&+,/:;=?@'' \<and> mode = encodePath then c = CHR ''?''
      else if c \<in> set ''$&+,/:;=?@'' \<and> mode = encodePathSegment then c \<in> set ''/;,?''
      else if c \<in> set ''$&+,/:;=?@'' \<and> mode = encodeUserPassword then c \<in> set ''@/?:''
      else if c \<in> set ''$&+,/:;=?@'' \<and> mode = encodeQueryComponent then True
      else if c \<in> set ''$&+,/:;=?@'' \<and> mode = encodeFragment then False
      else if mode = encodeFragment \<and> c \<in> set ''!()*'' then False
      else True)"

text \<open>
  \<open>unescape\<close>: the first loop checks that every \<open>%\<close> starts a well-formed escape
  (and, in a host, that the bytes are allowed there); the second builds the result.
\<close>

fun unescapeCheck :: "encoding \<Rightarrow> string \<Rightarrow> error option" where
  "unescapeCheck mode [] = None"
| "unescapeCheck mode (c # rest) =
     (if c = CHR ''%'' then
        (case rest of
           h1 # h2 # rest' \<Rightarrow>
             if \<not> ishex h1 \<or> \<not> ishex h2 then Some (EscapeError (take 3 (c # rest)))
             else if mode = encodeHost \<and> unhex h1 < 8 \<and> [c, h1, h2] \<noteq> ''%25''
             then Some (EscapeError [c, h1, h2])
             else if mode = encodeZone \<and> [c, h1, h2] \<noteq> ''%25''
                     \<and> char_of (unhex h1 * 16 + unhex h2) \<noteq> CHR '' ''
                     \<and> shouldEscape (char_of (unhex h1 * 16 + unhex h2)) encodeHost
             then Some (EscapeError [c, h1, h2])
             else unescapeCheck mode rest'
         | _ \<Rightarrow> Some (EscapeError (take 3 (c # rest))))
      else if c = CHR ''+'' then unescapeCheck mode rest
      else if (mode = encodeHost \<or> mode = encodeZone) \<and> ord c < 128 \<and> shouldEscape c encodeHost
      then Some (InvalidHostError [c])
      else unescapeCheck mode rest)"

fun unescapeBuild :: "encoding \<Rightarrow> string \<Rightarrow> string" where
  "unescapeBuild mode [] = []"
| "unescapeBuild mode (c # rest) =
     (if c = CHR ''%'' then
        (case rest of
           h1 # h2 # rest' \<Rightarrow> char_of (unhex h1 * 16 + unhex h2) # unescapeBuild mode rest'
         | _ \<Rightarrow> [])
      else if c = CHR ''+'' then
        (if mode = encodeQueryComponent then CHR '' '' else CHR ''+'') # unescapeBuild mode rest
      else c # unescapeBuild mode rest)"

definition unescape :: "string \<Rightarrow> encoding \<Rightarrow> error + string" where
  "unescape s mode =
     (case unescapeCheck mode s of Some err \<Rightarrow> Inl err | None \<Rightarrow> Inr (unescapeBuild mode s))"

definition escape :: "string \<Rightarrow> encoding \<Rightarrow> string" where
  "escape s mode =
     concat (map (\<lambda>c. if shouldEscape c mode then
                         (if c = CHR '' '' \<and> mode = encodeQueryComponent then ''+''
                          else [CHR ''%'', upperhex ! (ord c div 16), upperhex ! (ord c mod 16)])
                       else [c]) s)"

definition validEncoded :: "string \<Rightarrow> encoding \<Rightarrow> bool" where
  "validEncoded s mode \<longleftrightarrow>
     list_all (\<lambda>c. c \<in> set (''!$&()*+,;=:@[]%'' @ [CHR 0x27]) \<or> \<not> shouldEscape c mode) s"

fun getSchemeFrom :: "string \<Rightarrow> nat \<Rightarrow> string \<Rightarrow> error + (string \<times> string)" where
  "getSchemeFrom rawURL i [] = Inr ([], rawURL)"
| "getSchemeFrom rawURL i (c # cs) =
     (if isLetter c then getSchemeFrom rawURL (Suc i) cs
      else if isDigit c \<or> c = CHR ''+'' \<or> c = CHR ''-'' \<or> c = CHR ''.'' then
        (if i = 0 then Inr ([], rawURL) else getSchemeFrom rawURL (Suc i) cs)
      else if c = CHR '':'' then
        (if i = 0 then Inl (ErrorString ''missing protocol scheme'')
         else Inr (take i rawURL, drop (Suc i) rawURL))
      else Inr ([], rawURL))"

definition getScheme :: "string \<Rightarrow> error + (string \<times> string)" where
  "getScheme rawURL = getSchemeFrom rawURL 0 rawURL"

definition stringContainsCTLByte :: "string \<Rightarrow> bool" where
  "stringContainsCTLByte s \<longleftrightarrow> list_ex (\<lambda>c. ord c < 32 \<or> ord c = 127) s"

definition validOptionalPort :: "string \<Rightarrow> bool" where
  "validOptionalPort port \<longleftrightarrow>
     (case port of [] \<Rightarrow> True | c # ds \<Rightarrow> c = CHR '':'' \<and> list_all isDigit ds)"

definition validUserinfo :: "string \<Rightarrow> bool" where
  "validUserinfo s \<longleftrightarrow>
     list_all (\<lambda>r. isLetter r \<or> isDigit r \<or> r \<in> set (''-._:~!$&()*+,;=%@'' @ [CHR 0x27])) s"

text \<open>
  \<open>parseHost\<close>. Its two messages that quote their argument,
  \<open>missing ']' in host\<close> and \<open>fmt.Errorf("invalid port %q after host", colonPort)\<close>,
  are kept without the quoting: the second as the port text behind a prefix.
\<close>

definition parseHost :: "string \<Rightarrow> error + string" where
  "parseHost host =
     (if HasPrefix host ''['' then
        (let i = LastIndex host CHR '']'' in
         if i < 0 then Inl (ErrorString ''missing ] in host'')
         else if \<not> validOptionalPort (drop (nat i + 1) host)
         then Inl (Errorf ''invalid port after host: '' (ErrorString (drop (nat i + 1) host)))
         else
           (let zone = Index (take (nat i) host) ''%25'' in
            if 0 \<le> zone then
              (case unescape (take (nat zone) host) encodeHost of Inl err \<Rightarrow> Inl err
               | Inr host1 \<Rightarrow>
                   (case unescape (drop (nat zone) (take (nat i) host)) encodeZone of
                      Inl err \<Rightarrow> Inl err
                    | Inr host2 \<Rightarrow>
                        (case unescape (drop (nat i) host) encodeHost of Inl err \<Rightarrow> Inl err
                         | Inr host3 \<Rightarrow> Inr (host1 @ host2 @ host3))))
            else unescape host encodeHost))
      else if LastIndex host CHR '':'' \<noteq> - 1
              \<and> \<not> validOptionalPort (drop (nat (LastIndex host CHR '':'')) host)
      then Inl (Errorf ''invalid port after host: ''
                  (ErrorString (drop (nat (LastIndex host CHR '':'')) host)))
      else unescape host encodeHost)"

definition parseAuthority :: "string \<Rightarrow> error + (Userinfo option \<times> string)" where
  "parseAuthority authority =
     (let i = LastIndex authority CHR ''@'' in
      case (if i < 0 then parseHost authority else parseHost (drop (nat i + 1) authority)) of
        Inl err \<Rightarrow> Inl err
      | Inr host \<Rightarrow>
          if i < 0 then Inr (None, host)
          else
            (let userinfo = take (nat i) authority in
             if \<not> validUserinfo userinfo then Inl (ErrorString ''net/url: invalid userinfo'')
             else if \<not> Contains userinfo CHR '':'' then
               (case unescape userinfo encodeUserPassword of Inl err \<Rightarrow> Inl err
                | Inr name \<Rightarrow>
                    Inr (Some \<lparr>username = name, password = [], passwordSet = False\<rparr>, host))
             else
               (case unescape (fst (Cut userinfo CHR '':'')) encodeUserPassword of
                  Inl err \<Rightarrow> Inl err
                | Inr name \<Rightarrow>
                    (case unescape (snd (Cut userinfo CHR '':'')) encodeUserPassword of
                       Inl err \<Rightarrow> Inl err
                     | Inr pass \<Rightarrow>
                         Inr (Some \<lparr>username = name, password = pass, passwordSet = True\<rparr>,
                              host)))))"

definition setPath :: "URL \<Rightarrow> string \<Rightarrow> error + URL" where
  "setPath u p =
     (case unescape p encodePath of Inl err \<Rightarrow> Inl err
      | Inr path \<Rightarrow>
          Inr (u\<lparr>Path := path, RawPath := (if p = escape path encodePath then [] else p)\<rparr>))"

definition setFragment :: "URL \<Rightarrow> string \<Rightarrow> error + URL" where
  "setFragment u f =
     (case unescape f encodeFragment of Inl err \<Rightarrow> Inl err
      | Inr frag \<Rightarrow>
          Inr (u\<lparr>Fragment := frag,
                 RawFragment := (if f = escape frag encodeFragment then [] else f)\<rparr>))"

text \<open>\<open>parse(rawURL, viaRequest)\<close> with \<open>viaRequest = false\<close>, as \<open>url.Parse\<close> calls it.\<close>

definition parse :: "string \<Rightarrow> error + URL" where
  "parse rawURL =
     (if stringContainsCTLByte rawURL
      then Inl (ErrorString ''net/url: invalid control character in URL'')
      else if rawURL = ''*'' then Inr (emptyURL\<lparr>Path := ''*''\<rparr>)
      else
        (case getScheme rawURL of Inl err \<Rightarrow> Inl err
         | Inr (scheme, rest0) \<Rightarrow>
             (let force = (HasSuffix rest0 ''?'' \<and> Count rest0 CHR ''?'' = 1);
                  rest = (if force then butlast rest0 else fst (Cut rest0 CHR ''?''));
                  url = emptyURL\<lparr>Scheme := ToLower scheme, ForceQuery := force,
                          RawQuery := (if force then [] else snd (Cut rest0 CHR ''?''))\<rparr>
              in
              if \<not> HasPrefix rest ''/'' \<and> Scheme url \<noteq> [] then Inr (url\<lparr>Opaque := rest\<rparr>)
              else if \<not> HasPrefix rest ''/'' \<and> Contains (fst (Cut rest CHR ''/'')) CHR '':''
              then Inl (ErrorString ''first path segment in URL cannot contain colon'')
              else if (Scheme url \<noteq> [] \<or> \<not> HasPrefix rest ''///'') \<and> HasPrefix rest ''//''
              then
                (let authority0 = drop 2 rest;
                     i = Index authority0 ''/'';
                     authority = (if 0 \<le> i then take (nat i) authority0 else authority0);
                     rest' = (if 0 \<le> i then drop (nat i) authority0 else [])
                 in case parseAuthority authority of Inl err \<Rightarrow> Inl err
                    | Inr (user, host) \<Rightarrow> setPath (url\<lparr>User := user, Host := host\<rparr>) rest')
              else if Scheme url \<noteq> [] \<and> HasPrefix rest ''/''
              then setPath (url\<lparr>OmitHost := True\<rparr>) rest
              else setPath url rest)))"

definition Parse :: "string \<Rightarrow> error + URL" where
  "Parse rawURL =
     (let u = fst (Cut rawURL CHR ''#''); frag = snd (Cut rawURL CHR ''#'') in
      case parse u of Inl err \<Rightarrow> Inl (URLError ''parse'' u err)
      | Inr url \<Rightarrow>
          if frag = [] then Inr url
          else (case setFragment url frag of Inl err \<Rightarrow> Inl (URLError ''parse'' rawURL err)
                | Inr url' \<Rightarrow> Inr url'))"

definition EscapedPath :: "URL \<Rightarrow> string" where
  "EscapedPath u =
     (if RawPath u \<noteq> [] \<and> validEncoded (RawPath u) encodePath
         \<and> unescape (RawPath u) encodePath = Inr (Path u)
      then RawPath u
      else if Path u = ''*'' then ''*''
      else escape (Path u) encodePath)"

definition EscapedFragment :: "URL \<Rightarrow> string" where
  "EscapedFragment u =
     (if RawFragment u \<noteq> [] \<and> validEncoded (RawFragment u) encodeFragment
         \<and> unescape (RawFragment u) encodeFragment = Inr (Fragment u)
      then RawFragment u
      else escape (Fragment u) encodeFragment)"

definition Userinfo_String :: "Userinfo \<Rightarrow> string" where
  "Userinfo_String ui =
     escape (username ui) encodeUserPassword
       @ (if passwordSet ui then '':'' @ escape (password ui) encodeUserPassword else [])"

text \<open>
  \<open>(*URL).String\<close>. \<open>URL_String_base\<close> is what the buffer holds before the query and
  the fragment are written.
\<close>

definition URL_String_base :: "URL \<Rightarrow> string" where
  "URL_String_base u =
     (let buf0 = (if Scheme u \<noteq> [] then Scheme u @ '':'' else []) in
      if Opaque u \<noteq> [] then buf0 @ Opaque u
      else
        (let buf1 =
               (if Scheme u \<noteq> [] \<or> Host u \<noteq> [] \<or> User u \<noteq> None then
                  (if OmitHost u \<and> Host u = [] \<and> User u = None then buf0
                   else
                     buf0
                     @ (if Host u \<noteq> [] \<or> Path u \<noteq> [] \<or> User u \<noteq> None then ''//'' else [])
                     @ (case User u of None \<Rightarrow> [] | Some ui \<Rightarrow> Userinfo_String ui @ ''@'')
                     @ (if Host u \<noteq> [] then escape (Host u) encodeHost else []))
                else buf0);
             path = EscapedPath u;
             buf2 = (if path \<noteq> [] \<and> hd path \<noteq> CHR ''/'' \<and> Host u \<noteq> [] then buf1 @ ''/''
                     else buf1);
             buf3 = (if buf2 = [] \<and> Contains (fst (Cut path CHR ''/'')) CHR '':''
                     then buf2 @ ''./'' else buf2)
         in buf3 @ path))"

definition URL_String :: "URL \<Rightarrow> string" where
  "URL_String u =
     URL_String_base u
       @ (if ForceQuery u \<or> RawQuery u \<noteq> [] then ''?'' @ RawQuery u else [])
       @ (if Fragment u \<noteq> [] then ''#'' @ EscapedFragment u else [])"

section \<open>The fingerprint engine (\<open>main.go\<close>)\<close>

record HashResponse =
  Standard :: string
  AlphaNormalized :: string
  AlphaNormalizedCompact :: string

definition hashBuffer :: "'img stdlib \<Rightarrow> byte list \<Rightarrow> string" where
  "hashBuffer L data = hex_EncodeToString (Rep_digest (sha256_Sum256 L data))"

definition sha256Hex :: "'img stdlib \<Rightarrow> byte list \<Rightarrow> string" where
  "sha256Hex L data = hex_EncodeToString (Rep_digest (sha256_Sum256 L data))"

text \<open>
  The body of the two loops of \<open>computeHashes\<close>, at the pixel \<open>(x, y)\<close>:
  \<^verbatim>\<open>
  i := rgba.PixOffset(x, y)
  if rgba.Pix[i+3] == 0 { rgba.Pix[i+0] = 0; rgba.Pix[i+1] = 0; rgba.Pix[i+2] = 0 }
  \<close>
\<close>

definition zeroPixel :: "nat \<Rightarrow> int \<Rightarrow> int \<Rightarrow> 'img store \<Rightarrow> 'img store outcome" where
  "zeroPixel rgba y x s =
     (case loadNRGBA s rgba of Panic e \<Rightarrow> Panic e
      | Return p \<Rightarrow>
          (let i = PixOffset p x y in
           case index (Pix p) (i + 3) of Panic e \<Rightarrow> Panic e
           | Return a \<Rightarrow>
               if a = 0 then
                 (case assign (Pix p) (i + 0) 0 of Panic e \<Rightarrow> Panic e
                  | Return p0 \<Rightarrow>
                      (case assign p0 (i + 1) 0 of Panic e \<Rightarrow> Panic e
                       | Return p1 \<Rightarrow>
                           (case assign p1 (i + 2) 0 of Panic e \<Rightarrow> Panic e
                            | Return p2 \<Rightarrow> Return (s[rgba := NRGBAObj (p\<lparr>Pix := p2\<rparr>)]))))
               else Return s))"

definition zeroTransparent :: "nat \<Rightarrow> int \<Rightarrow> int \<Rightarrow> 'img store \<Rightarrow> 'img store outcome" where
  "zeroTransparent rgba width height s =
     forRange (rangeInt height) (\<lambda>y. forRange (rangeInt width) (zeroPixel rgba y)) s"

text \<open>
  Lines 120 to 141: the copy of the image as \<open>NRGBA\<close>, normalised, behind its header.
  The result is \<open>alphaBuffer\<close> and the store in which \<open>rgba\<close> has been written.
\<close>

definition alphaBufferOf ::
  "'img stdlib \<Rightarrow> 'img store \<Rightarrow> nat \<Rightarrow> (byte list \<times> 'img store) outcome" where
  "alphaBufferOf L s img =
     (case loadImage s img of Panic e \<Rightarrow> Panic e
      | Return i \<Rightarrow>
          (let bounds = Bounds L i; width = Dx bounds; height = Dy bounds in
           case NewNRGBA s bounds of Panic e \<Rightarrow> Panic e
           | Return (rgba, s1) \<Rightarrow>
               (case draw_Draw L s1 rgba bounds img (Min_pt bounds) of Panic e \<Rightarrow> Panic e
                | Return s2 \<Rightarrow>
                    (case zeroTransparent rgba width height s2 of Panic e \<Rightarrow> Panic e
                     | Return s3 \<Rightarrow>
                         (case PutUint32 (replicate 8 0) 0 (word_of_int width) of
                            Panic e \<Rightarrow> Panic e
                          | Return h0 \<Rightarrow>
                              (case PutUint32 h0 4 (word_of_int height) of Panic e \<Rightarrow> Panic e
                               | Return header \<Rightarrow>
                                   (case loadNRGBA s3 rgba of Panic e \<Rightarrow> Panic e
                                    | Return p \<Rightarrow> Return (header @ Pix p, s3))))))))"

definition computeHashes ::
  "'img stdlib \<Rightarrow> 'img store \<Rightarrow> byte list \<Rightarrow> ((error + HashResponse) \<times> 'img store) outcome" where
  "computeHashes L s imgBytes =
     (case image_Decode L imgBytes of
        Inl err \<Rightarrow> Return (Inl (Errorf ''image decode failed: '' err), s)
      | Inr (decoded, format) \<Rightarrow>
          (case alloc s (ImageObj decoded) of (img, s0) \<Rightarrow>
             if ToLower format \<noteq> ''png''
             then Return (Inl (ErrorString ''only PNG images are supported''), s0)
             else
               (case alphaBufferOf L s0 img of Panic e \<Rightarrow> Panic e
                | Return (alphaBuffer, s3) \<Rightarrow>
                    (let alphaHash = hashBuffer L alphaBuffer in
                     case imaging_Encode L s3 img of Panic e \<Rightarrow> Panic e
                     | Return (Inl err) \<Rightarrow> Return (Inl err, s3)
                     | Return (Inr buffer) \<Rightarrow>
                         (let standardHash = hashBuffer L buffer in
                          case slice_to alphaHash 16 of Panic e \<Rightarrow> Panic e
                          | Return compact \<Rightarrow>
                              Return (Inr \<lparr>Standard = standardHash,
                                           AlphaNormalized = alphaHash,
                                           AlphaNormalizedCompact = compact\<rparr>, s3))))))"

section \<open>The request handler (\<open>main.go\<close>)\<close>

text \<open>
  What one request brings from outside: the \<open>url\<close> query parameter
  (\<open>r.URL.Query().Get("url")\<close>, empty when absent) and the result of
  \<open>r.FormFile("file")\<close> followed by \<open>io.ReadAll(file)\<close>. \<open>http.Get\<close> is a function
  from the URL to the pair \<open>(resp, err)\<close>; \<open>Body\<close> is what \<open>io.ReadAll(resp.Body)\<close>
  gives.
\<close>

record Request =
  query_url :: string
  FormFile :: "error + (error + byte list)"

record Response =
  StatusCode :: int
  Body :: "error + byte list"

type_synonym http_Get = "string \<Rightarrow> Response option \<times> error option"

text \<open>
  What the handler writes: \<open>http.Error\<close> with the JSON text made of an error title and
  the details, and a status code; or \<open>writeJSON\<close> of a \<open>HashResponse\<close>.
\<close>

datatype Reply = http_Error string error int | writeJSON HashResponse

text \<open>The state that outlives a request: the cache (\<open>sync.Map\<close>) and the heap.\<close>

record 'img state =
  cache :: "string \<rightharpoonup> HashResponse"
  heap :: "'img store"

text \<open>\<open>err.Error()\<close> on a value of the interface type \<open>error\<close>: a nil value panics.\<close>

definition Error_method :: "error option \<Rightarrow> error outcome" where
  "Error_method err = (case err of None \<Rightarrow> Panic nil_dereference | Some e \<Rightarrow> Return e)"

definition normalizeURL :: "string \<Rightarrow> string \<times> error option" where
  "normalizeURL raw =
     (case Parse raw of
        Inl err \<Rightarrow> (raw, Some err)
      | Inr parsed \<Rightarrow> (URL_String (parsed\<lparr>RawQuery := [], Fragment := []\<rparr>), None))"

text \<open>Lines 100 to 107 of \<open>handleHash\<close>: compute, store under the key, reply.\<close>

definition hashAndStore ::
  "'img stdlib \<Rightarrow> string \<Rightarrow> byte list \<Rightarrow> 'img state \<Rightarrow> Reply outcome \<times> 'img state" where
  "hashAndStore L cacheKey skinBytes st =
     (case computeHashes L (heap st) skinBytes of
        Panic e \<Rightarrow> (Panic e, st)
      | Return (Inl err, h) \<Rightarrow>
          (Return (http_Error ''Failed to compute hashes'' err 500), st\<lparr>heap := h\<rparr>)
      | Return (Inr hashes, h) \<Rightarrow>
          (Return (writeJSON hashes), st\<lparr>cache := (cache st)(cacheKey \<mapsto> hashes), heap := h\<rparr>))"

definition handleHash ::
  "'img stdlib \<Rightarrow> http_Get \<Rightarrow> Request \<Rightarrow> 'img state \<Rightarrow> Reply outcome \<times> 'img state" where
  "handleHash L get r st =
     (let url = query_url r in
      if url \<noteq> [] then
        (case normalizeURL url of
           (cleanedURL, Some err) \<Rightarrow> (Return (http_Error ''Invalid URL'' err 400), st)
         | (cleanedURL, None) \<Rightarrow>
             (let cacheKey = ''url:'' @ cleanedURL in
              case cache st cacheKey of
                Some val \<Rightarrow> (Return (writeJSON val), st)
              | None \<Rightarrow>
                  (case get url of
                     (resp, err) \<Rightarrow>
                       (case (if err \<noteq> None then Return True
                              else (case resp of None \<Rightarrow> Panic nil_dereference
                                    | Some rsp \<Rightarrow> Return (StatusCode rsp \<noteq> 200))) of
                          Panic e \<Rightarrow> (Panic e, st)
                        | Return True \<Rightarrow>
                            (case Error_method err of
                               Panic e \<Rightarrow> (Panic e, st)
                             | Return msg \<Rightarrow>
                                 (Return (http_Error ''Failed to fetch image from URL'' msg 400),
                                  st))
                        | Return False \<Rightarrow>
                            (case resp of None \<Rightarrow> (Panic nil_dereference, st)
                             | Some rsp \<Rightarrow>
                                 (case Body rsp of
                                    Inl err \<Rightarrow>
                                      (Return (http_Error ''Failed to read image from URL''
                                                 err 500), st)
                                  | Inr skinBytes \<Rightarrow>
                                      hashAndStore L cacheKey skinBytes st))))))
      else
        (case FormFile r of
           Inl err \<Rightarrow> (Return (http_Error ''Failed to get uploaded file'' err 400), st)
         | Inr (Inl err) \<Rightarrow>
             (Return (http_Error ''Failed to read uploaded file'' err 500), st)
         | Inr (Inr skinBytes) \<Rightarrow>
             (let cacheKey = ''sha256:'' @ sha256Hex L skinBytes in
              case cache st cacheKey of
                Some val \<Rightarrow> (Return (writeJSON val), st)
              | None \<Rightarrow> hashAndStore L cacheKey skinBytes st)))"

text \<open>\<open>recoverMiddleware\<close>: a panic of the handler becomes the reply with status 500.\<close>

definition recoverMiddleware ::
  "('img state \<Rightarrow> Reply outcome \<times> 'img state) \<Rightarrow> 'img state \<Rightarrow> Reply \<times> 'img state" where
  "recoverMiddleware next st =
     (case next st of
        (Panic rec, st') \<Rightarrow> (http_Error ''Internal server error'' rec 500, st')
      | (Return reply, st') \<Rightarrow> (reply, st'))"

section \<open>Notions used to state the properties\<close>

definition origin :: Point where
  "origin = \<lparr>X = 0, Y = 0\<rparr>"

text \<open>The four bytes \<open>binary.BigEndian\<close> writes for a \<open>uint32\<close>.\<close>

definition BigEndian_bytes :: "32 word \<Rightarrow> byte list" where
  "BigEndian_bytes v =
     [ucast (drop_bit 24 v), ucast (drop_bit 16 v), ucast (drop_bit 8 v), ucast v]"

text \<open>
  The pixel \<open>(x, y)\<close> of a buffer of four bytes per pixel that holds rows of \<open>W\<close>
  pixels one after the other: the list \<open>[R, G, B, A]\<close>.
\<close>

definition pixelAt :: "byte list \<Rightarrow> nat \<Rightarrow> nat \<Rightarrow> nat \<Rightarrow> byte list" where
  "pixelAt P W x y = take 4 (drop (4 * (y * W + x)) P)"

text \<open>One step of the loops on the pixel number \<open>k\<close>, and the buffer after \<open>n\<close> steps.\<close>

definition zeroAt :: "byte list \<Rightarrow> nat \<Rightarrow> byte list" where
  "zeroAt P k =
     (if P ! (4 * k + 3) = 0 then P[4 * k := 0, 4 * k + 1 := 0, 4 * k + 2 := 0] else P)"

definition normalisedUpTo :: "byte list \<Rightarrow> nat \<Rightarrow> byte list" where
  "normalisedUpTo P n =
     map (\<lambda>j. if j div 4 < n \<and> j mod 4 \<noteq> 3 \<and> P ! (4 * (j div 4) + 3) = 0 then 0 else P ! j)
       [0..<length P]"

text \<open>
  The normalised buffer: the byte \<open>j\<close> is zero when it is a colour byte of a pixel whose
  alpha byte is zero, and is the byte of \<open>P\<close> otherwise.
\<close>

definition alphaNormalised :: "byte list \<Rightarrow> byte list" where
  "alphaNormalised P =
     map (\<lambda>j. if j mod 4 \<noteq> 3 \<and> P ! (4 * (j div 4) + 3) = 0 then 0 else P ! j) [0..<length P]"

text \<open>
  What the libraries guarantee and the program relies on. The PNG decoder returns images
  whose bounds start at \<open>(0, 0)\<close>, with dimensions that it has checked against overflow;
  \<open>draw.Draw\<close> writes into the destination's pixel slice and never resizes it.
\<close>

definition origin_bounds :: "Rectangle \<Rightarrow> bool" where
  "origin_bounds r \<longleftrightarrow>
     Min_pt r = origin \<and> 0 \<le> Dx r \<and> 0 \<le> Dy r \<and> 4 * Dx r * Dy r \<le> max_int"

definition draw_in_place :: "'img stdlib \<Rightarrow> bool" where
  "draw_in_place L \<longleftrightarrow> (\<forall>d r i sp. length (draw_Src L d r i sp) = length (Pix d))"

definition png_decoder_ok :: "'img stdlib \<Rightarrow> bool" where
  "png_decoder_ok L \<longleftrightarrow>
     (\<forall>b i fmt. image_Decode L b = Inr (i, fmt) \<and> ToLower fmt = ''png''
        \<longrightarrow> origin_bounds (Bounds L i))"

text \<open>The decoded image as \<open>draw.Draw\<close> leaves it in the fresh \<open>NRGBA\<close> copy.\<close>

definition freshNRGBA :: "Rectangle \<Rightarrow> NRGBA" where
  "freshNRGBA r = \<lparr>Pix = replicate (nat (4 * Dx r * Dy r)) 0, Stride = 4 * Dx r, Rect = r\<rparr>"

definition drawnPix :: "'img stdlib \<Rightarrow> 'img \<Rightarrow> byte list" where
  "drawnPix L i = draw_Src L (freshNRGBA (Bounds L i)) (Bounds L i) i (Min_pt (Bounds L i))"

text \<open>
  Two pixel buffers that differ at most in the colour bytes of pixels whose alpha byte
  is zero.
\<close>

definition same_visible :: "byte list \<Rightarrow> byte list \<Rightarrow> bool" where
  "same_visible P Q \<longleftrightarrow>
     length P = length Q \<and>
     (\<forall>j < length P. P ! (4 * (j div 4) + 3) = Q ! (4 * (j div 4) + 3) \<and>
        (P ! (4 * (j div 4) + 3) = 0 \<and> j mod 4 \<noteq> 3 \<or> P ! j = Q ! j))"

text \<open>The loops on the \<open>NRGBA\<close> object itself, without the store around it.\<close>

definition zeroPixelOn :: "int \<Rightarrow> int \<Rightarrow> NRGBA \<Rightarrow> NRGBA outcome" where
  "zeroPixelOn y x p =
     (let i = PixOffset p x y in
      case index (Pix p) (i + 3) of Panic e \<Rightarrow> Panic e
      | Return a \<Rightarrow>
          if a = 0 then
            (case assign (Pix p) (i + 0) 0 of Panic e \<Rightarrow> Panic e
             | Return p0 \<Rightarrow>
                 (case assign p0 (i + 1) 0 of Panic e \<Rightarrow> Panic e
                  | Return p1 \<Rightarrow>
                      (case assign p1 (i + 2) 0 of Panic e \<Rightarrow> Panic e
                       | Return p2 \<Rightarrow> Return (p\<lparr>Pix := p2\<rparr>))))
          else Return p)"

definition zeroTransparentOn :: "int \<Rightarrow> int \<Rightarrow> NRGBA \<Rightarrow> NRGBA outcome" where
  "zeroTransparentOn width height p =
     forRange (rangeInt height) (\<lambda>y. forRange (rangeInt width) (zeroPixelOn y)) p"

definition alphaBufferOn :: "'img stdlib \<Rightarrow> 'img \<Rightarrow> (byte list \<times> NRGBA) outcome" where
  "alphaBufferOn L i =
     (let bounds = Bounds L i in
      if Dx bounds < 0 \<or> Dy bounds < 0 \<or> max_int < 4 * Dx bounds * Dy bounds
      then Panic (ErrorString ''image: NewNRGBA Rectangle has huge or negative dimensions'')
      else
        (case zeroTransparentOn (Dx bounds) (Dy bounds)
                ((freshNRGBA bounds)\<lparr>Pix := drawnPix L i\<rparr>) of
           Panic e \<Rightarrow> Panic e
         | Return p \<Rightarrow>
             Return (BigEndian_bytes (word_of_int (Dx bounds))
                       @ BigEndian_bytes (word_of_int (Dy bounds)) @ Pix p, p)))"

subsection \<open>A small library to run the program on\<close>

text \<open>
  An instance of the library functions for concrete runs: the decoded image is an
  \<open>NRGBA\<close> image, three inputs decode (two as PNG, one as JPEG), drawing copies the
  pixels, the encoder writes the pixel bytes and the digest is the first 32 bytes of
  the padded input. \<open>scenario\<close> is the image of two by two pixels
  \<open>(255,0,0,255), (0,255,0,0), (0,0,255,128), (255,255,0,0)\<close>.
\<close>

definition scenario :: NRGBA where
  "scenario = \<lparr>Pix = [255, 0, 0, 255, 0, 255, 0, 0, 0, 0, 255, 128, 255, 255, 0, 0],
                Stride = 8, Rect = \<lparr>Min_pt = origin, Max_pt = \<lparr>X = 2, Y = 2\<rparr>\<rparr>\<rparr>"

definition scenario_zeroed :: NRGBA where
  "scenario_zeroed = \<lparr>Pix = [255, 0, 0, 255, 0, 0, 0, 0, 0, 0, 255, 128, 0, 0, 0, 0],
                Stride = 8, Rect = \<lparr>Min_pt = origin, Max_pt = \<lparr>X = 2, Y = 2\<rparr>\<rparr>\<rparr>"

definition stub_Decode :: "byte list \<Rightarrow> error + (NRGBA \<times> string)" where
  "stub_Decode b =
     (if b = [1] then Inr (scenario, ''png'')
      else if b = [2] then Inr (scenario_zeroed, ''png'')
      else if b = [3] then Inr (scenario, ''jpeg'')
      else Inl (ErrorString ''image: unknown format''))"

definition stub_Sum256 :: "byte list \<Rightarrow> digest" where
  "stub_Sum256 d = Abs_digest (take 32 (d @ replicate 32 0))"

definition stub_lib :: "NRGBA stdlib" where
  "stub_lib =
     \<lparr>image_Decode = stub_Decode,
      Bounds = Rect,
      draw_Src = (\<lambda>d r i sp. take (length (Pix d)) (Pix i @ replicate (length (Pix d)) 0)),
      imaging_Encode_PNG = (\<lambda>i. Inr (Pix i)),
      sha256_Sum256 = stub_Sum256\<rparr>"

text \<open>The run of \<open>computeHashes\<close> on the input that decodes to \<open>scenario\<close>.\<close>

definition scenario_buffer :: "byte list" where
  "scenario_buffer =
     [0, 0, 0, 2, 0, 0, 0, 2, 255, 0, 0, 255, 0, 0, 0, 0, 0, 0, 255, 128, 0, 0, 0, 0]"

definition scenario_response :: HashResponse where
  "scenario_response =
     \<lparr>Standard = hashBuffer stub_lib (Pix scenario),
      AlphaNormalized = hashBuffer stub_lib scenario_buffer,
      AlphaNormalizedCompact = take 16 (hashBuffer stub_lib scenario_buffer)\<rparr>"

definition zeroed_response :: HashResponse where
  "zeroed_response =
     \<lparr>Standard = hashBuffer stub_lib (Pix scenario_zeroed),
      AlphaNormalized = hashBuffer stub_lib scenario_buffer,
      AlphaNormalizedCompact = take 16 (hashBuffer stub_lib scenario_buffer)\<rparr>"

text \<open>
  Requests to run the handler on: no cache entries yet, no uploaded file, and an
  \<open>http.Get\<close> that answers every URL with the given status and the bytes that decode
  to \<open>scenario\<close>.
\<close>

definition empty_state :: "NRGBA state" where
  "empty_state = \<lparr>cache = Map.empty, heap = []\<rparr>"

definition url_request :: "string \<Rightarrow> Request" where
  "url_request u = \<lparr>query_url = u, FormFile = Inl (ErrorString ''http: no such file'')\<rparr>"

definition upload_request :: "byte list \<Rightarrow> Request" where
  "upload_request bytes = \<lparr>query_url = [], FormFile = Inr (Inr bytes)\<rparr>"

definition answer_with :: "int \<Rightarrow> http_Get" where
  "answer_with status = (\<lambda>u. (Some \<lparr>StatusCode = status, Body = Inr [1]\<rparr>, None))"

section \<open>Lemmas\<close>

subsection \<open>Loops and slices\<close>

lemma forRange_snoc:
  "forRange (xs @ [x]) body s =
     (case forRange xs body s of Panic e \<Rightarrow> Panic e | Return s' \<Rightarrow> body x s')"
  by (induction xs arbitrary: s) (auto split: outcome.splits)

lemma index_int: "n < length xs \<Longrightarrow> index xs (int n) = Return (xs ! n)"
  by (simp add: index_def)

lemma assign_int: "n < length xs \<Longrightarrow> assign xs (int n) v = Return (xs[n := v])"
  by (simp add: assign_def)

lemma store_update_same: "s ! a = obj \<Longrightarrow> s[a := obj] = s"
  by (metis list_update_id)

subsection \<open>Hexadecimal digests\<close>

lemma unat_lo_nibble: "unat ((v :: byte) AND 0x0f) = unat v mod 16"
proof -
  have "v AND 0x0f = take_bit 4 v"
    by (simp add: take_bit_eq_mask mask_eq_exp_minus_1)
  then have "unat (v AND 0x0f) = unat (take_bit 4 v)"
    by (simp only:)
  also have "\<dots> = take_bit 4 (unat v)"
    by (rule unsigned_take_bit_eq)
  also have "\<dots> = unat v mod 2 ^ 4"
    by (rule take_bit_eq_mod)
  finally show ?thesis by simp
qed

lemma unat_hi_nibble: "unat (drop_bit 4 (v :: byte)) = unat v div 16"
proof -
  have "unat (drop_bit 4 v) = unat v div 2 ^ 4"
    unfolding unat_drop_bit_eq by (rule drop_bit_eq_div)
  then show ?thesis by simp
qed

lemma hi_nibble: "unat (drop_bit 4 (v :: byte)) < 16"
proof -
  have "unat v < 256" using unsigned_less [of v, where 'a = nat] by simp
  then show ?thesis by (simp add: unat_hi_nibble)
qed

lemma lo_nibble: "unat ((v :: byte) AND 0x0f) < 16"
  by (simp add: unat_lo_nibble)

lemma length_hex_EncodeToString: "length (hex_EncodeToString bs) = 2 * length bs"
  by (induction bs) (simp_all add: hex_EncodeToString_def)

lemma length_hextable: "length hextable = 16"
  by (simp add: hextable_def)

lemma hextable_nth: "n < 16 \<Longrightarrow> hextable ! n \<in> set hextable"
  by (rule nth_mem) (simp add: length_hextable)

lemma set_hex_EncodeToString: "set (hex_EncodeToString bs) \<subseteq> set hextable"
  by (induction bs) (simp_all add: hex_EncodeToString_def hextable_nth hi_nibble lo_nibble)

lemma length_hashBuffer: "length (hashBuffer L d) = 64"
  using Rep_digest [of "sha256_Sum256 L d"]
  by (simp add: hashBuffer_def length_hex_EncodeToString)

lemma set_hashBuffer: "set (hashBuffer L d) \<subseteq> set hextable"
  by (simp add: hashBuffer_def set_hex_EncodeToString)

lemma hextable_distinct: "distinct hextable"
  by (simp add: hextable_def)

lemma hex_digit_inj:
  assumes "m < 16" "n < 16" "hextable ! m = hextable ! n"
  shows "m = n"
  using assms nth_eq_iff_index_eq [OF hextable_distinct, of m n]
  by (simp add: length_hextable)

lemma byte_from_nibbles:
  fixes v w :: byte
  assumes "unat (drop_bit 4 v) = unat (drop_bit 4 w)" "unat (v AND 0x0f) = unat (w AND 0x0f)"
  shows "v = w"
proof -
  have "unat v div 16 = unat w div 16" "unat v mod 16 = unat w mod 16"
    using assms by (simp_all only: unat_hi_nibble unat_lo_nibble)
  then have "unat v = unat w"
    by (metis div_mult_mod_eq)
  then show ?thesis
    by (rule word_unat_eq_iff [THEN iffD2])
qed

lemma hex_EncodeToString_inj:
  "hex_EncodeToString xs = hex_EncodeToString ys \<Longrightarrow> xs = ys"
proof (induction xs arbitrary: ys)
  case Nil
  then show ?case
    by (cases ys) (simp_all add: hex_EncodeToString_def)
next
  case (Cons x xs)
  then obtain y ys' where ys: "ys = y # ys'"
    by (cases ys) (simp_all add: hex_EncodeToString_def)
  have eq: "hextable ! unat (drop_bit 4 x) = hextable ! unat (drop_bit 4 y)"
    "hextable ! unat (x AND 0x0f) = hextable ! unat (y AND 0x0f)"
    "hex_EncodeToString xs = hex_EncodeToString ys'"
    using Cons.prems by (simp_all add: ys hex_EncodeToString_def)
  have "unat (drop_bit 4 x) = unat (drop_bit 4 y)"
    using eq(1) by (intro hex_digit_inj hi_nibble)
  moreover have "unat (x AND 0x0f) = unat (y AND 0x0f)"
    using eq(2) by (intro hex_digit_inj lo_nibble)
  ultimately have "x = y"
    by (rule byte_from_nibbles)
  then show ?case
    using Cons.IH [OF eq(3)] ys by simp
qed

lemma hashBuffer_eq_iff:
  "hashBuffer L x = hashBuffer L y \<longleftrightarrow> sha256_Sum256 L x = sha256_Sum256 L y"
  using hex_EncodeToString_inj Rep_digest_inject
  by (auto simp: hashBuffer_def)

subsection \<open>The normalising loops\<close>

lemma length_normalisedUpTo: "length (normalisedUpTo P n) = length P"
  by (simp add: normalisedUpTo_def)

lemma normalisedUpTo_0: "normalisedUpTo P 0 = P"
  by (simp add: normalisedUpTo_def map_nth)

lemma PixOffset_origin:
  assumes "Min_pt (Rect p) = origin" "Stride p = 4 * int W"
  shows "PixOffset p (int x) (int y) = int (4 * (y * W + x))"
  using assms by (simp add: PixOffset_def origin_def algebra_simps)

lemma zeroPixel_step:
  assumes "rgba < length s" "s ! rgba = NRGBAObj p" "Min_pt (Rect p) = origin"
    "Stride p = 4 * int W" "4 * (y * W + x) + 3 < length (Pix p)"
  shows "zeroPixel rgba (int y) (int x) s =
           Return (s[rgba := NRGBAObj (p\<lparr>Pix := zeroAt (Pix p) (y * W + x)\<rparr>)])"
proof -
  let ?k = "y * W + x"
  have off: "PixOffset p (int x) (int y) = int (4 * ?k)"
    using assms(3,4) by (rule PixOffset_origin)
  have ld: "loadNRGBA s rgba = Return p"
    using assms(1,2) by (simp add: loadNRGBA_def)
  have e: "int (4 * ?k) + 0 = int (4 * ?k)" "int (4 * ?k) + 1 = int (4 * ?k + 1)"
    "int (4 * ?k) + 2 = int (4 * ?k + 2)" "int (4 * ?k) + 3 = int (4 * ?k + 3)"
    by simp_all
  have i3: "index (Pix p) (int (4 * ?k) + 3) = Return (Pix p ! (4 * ?k + 3))"
    unfolding e using assms(5) by (intro index_int)
  show ?thesis
  proof (cases "Pix p ! (4 * ?k + 3) = 0")
    case True
    have a0: "assign (Pix p) (int (4 * ?k) + 0) 0 = Return ((Pix p)[4 * ?k := 0])"
      unfolding e using assms(5) by (intro assign_int) simp
    have a1: "assign ((Pix p)[4 * ?k := 0]) (int (4 * ?k) + 1) 0
                = Return ((Pix p)[4 * ?k := 0, 4 * ?k + 1 := 0])"
      unfolding e using assms(5) by (intro assign_int) simp
    have a2: "assign ((Pix p)[4 * ?k := 0, 4 * ?k + 1 := 0]) (int (4 * ?k) + 2) 0
                = Return ((Pix p)[4 * ?k := 0, 4 * ?k + 1 := 0, 4 * ?k + 2 := 0])"
      unfolding e using assms(5) by (intro assign_int) simp
    show ?thesis
      by (simp only: zeroPixel_def Let_def ld off outcome.case i3 a0 a1 a2 True zeroAt_def)
        simp
  next
    case False
    have "s[rgba := NRGBAObj p] = s"
      using assms(2) by (rule store_update_same)
    then show ?thesis
      by (simp only: zeroPixel_def Let_def ld off outcome.case i3 False zeroAt_def) simp
  qed
qed

lemma zeroAt_normalisedUpTo:
  assumes "4 * k + 3 < length P"
  shows "zeroAt (normalisedUpTo P k) k = normalisedUpTo P (Suc k)"
proof (rule nth_equalityI)
  show "length (zeroAt (normalisedUpTo P k) k) = length (normalisedUpTo P (Suc k))"
    by (simp add: zeroAt_def length_normalisedUpTo)
next
  fix j assume "j < length (zeroAt (normalisedUpTo P k) k)"
  then have j: "j < length P"
    by (simp add: zeroAt_def length_normalisedUpTo split: if_splits)
  have alpha: "normalisedUpTo P k ! (4 * k + 3) = P ! (4 * k + 3)"
    using assms by (simp add: normalisedUpTo_def)
  have dm: "j = 4 * (j div 4) + j mod 4" "j mod 4 < 4"
    by simp_all
  consider (a) "j div 4 = k" "j mod 4 \<noteq> 3" | (b) "j div 4 = k" "j mod 4 = 3" | (c) "j div 4 \<noteq> k"
    by blast
  then show "zeroAt (normalisedUpTo P k) k ! j = normalisedUpTo P (Suc k) ! j"
  proof cases
    case a
    then have "j = 4 * k \<or> j = 4 * k + 1 \<or> j = 4 * k + 2" using dm by linarith
    then show ?thesis
      using j a assms by (auto simp: zeroAt_def alpha normalisedUpTo_def)
  next
    case b
    then have "j = 4 * k + 3" using dm by linarith
    then show ?thesis
      using j assms by (simp add: zeroAt_def alpha normalisedUpTo_def)
  next
    case c
    then have "j \<noteq> 4 * k" "j \<noteq> 4 * k + 1" "j \<noteq> 4 * k + 2" by auto
    moreover have "j div 4 < Suc k \<longleftrightarrow> j div 4 < k" using c by auto
    ultimately show ?thesis
      using j assms by (simp add: zeroAt_def alpha normalisedUpTo_def)
  qed
qed

lemma inner_loop:
  assumes "rgba < length s" "s ! rgba = NRGBAObj p" "Min_pt (Rect p) = origin"
    "Stride p = 4 * int W" "Pix p = normalisedUpTo P0 (y * W)" "4 * (y * W + W) \<le> length P0"
    "n \<le> W"
  shows "forRange (map int [0..<n]) (zeroPixel rgba (int y)) s =
           Return (s[rgba := NRGBAObj (p\<lparr>Pix := normalisedUpTo P0 (y * W + n)\<rparr>)])"
  using assms(7)
proof (induction n)
  case 0
  have "p\<lparr>Pix := normalisedUpTo P0 (y * W)\<rparr> = p"
    using assms(5) by simp
  then show ?case
    using assms(2) by (simp add: store_update_same)
next
  case (Suc n)
  let ?p1 = "p\<lparr>Pix := normalisedUpTo P0 (y * W + n)\<rparr>"
  let ?s1 = "s[rgba := NRGBAObj ?p1]"
  have ih: "forRange (map int [0..<n]) (zeroPixel rgba (int y)) s = Return ?s1"
    using Suc by simp
  have bound: "4 * (y * W + n) + 3 < length P0"
    using Suc.prems assms(6) by simp
  have step: "zeroPixel rgba (int y) (int n) ?s1 =
                Return (?s1[rgba := NRGBAObj (?p1\<lparr>Pix := zeroAt (Pix ?p1) (y * W + n)\<rparr>)])"
    by (rule zeroPixel_step [where W = W])
       (use assms(1,3,4) bound in \<open>simp_all add: length_normalisedUpTo\<close>)
  have "zeroAt (Pix ?p1) (y * W + n) = normalisedUpTo P0 (y * W + Suc n)"
    using zeroAt_normalisedUpTo [OF bound] by simp
  then have "zeroPixel rgba (int y) (int n) ?s1 =
               Return (s[rgba := NRGBAObj (p\<lparr>Pix := normalisedUpTo P0 (y * W + Suc n)\<rparr>)])"
    using step by simp
  then show ?case
    by (simp add: forRange_snoc ih)
qed

lemma outer_loop:
  assumes "rgba < length s" "s ! rgba = NRGBAObj p" "Min_pt (Rect p) = origin"
    "Stride p = 4 * int W" "length (Pix p) = 4 * W * H" "m \<le> H"
  shows "forRange (map int [0..<m]) (\<lambda>y. forRange (rangeInt (int W)) (zeroPixel rgba y)) s =
           Return (s[rgba := NRGBAObj (p\<lparr>Pix := normalisedUpTo (Pix p) (m * W)\<rparr>)])"
  using assms(6)
proof (induction m)
  case 0
  then show ?case
    using assms(2) by (simp add: normalisedUpTo_0 store_update_same)
next
  case (Suc m)
  let ?p1 = "p\<lparr>Pix := normalisedUpTo (Pix p) (m * W)\<rparr>"
  let ?s1 = "s[rgba := NRGBAObj ?p1]"
  have ih: "forRange (map int [0..<m]) (\<lambda>y. forRange (rangeInt (int W)) (zeroPixel rgba y)) s
              = Return ?s1"
    using Suc by simp
  have "Suc m * W \<le> H * W"
    using Suc.prems by (intro mult_le_mono1)
  then have row: "4 * (m * W + W) \<le> length (Pix p)"
    using assms(5) by (simp add: algebra_simps)
  have "forRange (map int [0..<W]) (zeroPixel rgba (int m)) ?s1 =
          Return (?s1[rgba := NRGBAObj (?p1\<lparr>Pix := normalisedUpTo (Pix p) (m * W + W)\<rparr>)])"
    by (rule inner_loop [where W = W]) (use assms(1,3,4) row in simp_all)
  then have "forRange (rangeInt (int W)) (zeroPixel rgba (int m)) ?s1 =
          Return (s[rgba := NRGBAObj (p\<lparr>Pix := normalisedUpTo (Pix p) (Suc m * W)\<rparr>)])"
    by (simp add: rangeInt_def add.commute)
  then show ?case
    by (simp add: forRange_snoc ih)
qed

lemma normalisedUpTo_all:
  assumes "length P \<le> 4 * n"
  shows "normalisedUpTo P n = alphaNormalised P"
proof -
  have "j div 4 < n" if "j < length P" for j
    using that assms by simp
  then show ?thesis
    by (simp add: normalisedUpTo_def alphaNormalised_def)
qed

lemma zeroTransparent_Return:
  assumes "rgba < length s" "s ! rgba = NRGBAObj p" "Min_pt (Rect p) = origin"
    "Stride p = 4 * int W" "length (Pix p) = 4 * W * H"
  shows "zeroTransparent rgba (int W) (int H) s =
           Return (s[rgba := NRGBAObj (p\<lparr>Pix := alphaNormalised (Pix p)\<rparr>)])"
proof -
  have "normalisedUpTo (Pix p) (H * W) = alphaNormalised (Pix p)"
    by (rule normalisedUpTo_all) (simp add: assms(5))
  then show ?thesis
    using outer_loop [OF assms, of H] by (simp add: zeroTransparent_def rangeInt_def)
qed

subsection \<open>The normalised buffer\<close>

lemma length_alphaNormalised: "length (alphaNormalised P) = length P"
  by (simp add: alphaNormalised_def)

lemma take4_drop:
  assumes "n + 3 < length xs"
  shows "take 4 (drop n xs) = [xs ! n, xs ! (n + 1), xs ! (n + 2), xs ! (n + 3)]"
proof (rule nth_equalityI)
  show "length (take 4 (drop n xs)) = length [xs ! n, xs ! (n + 1), xs ! (n + 2), xs ! (n + 3)]"
    using assms by simp
next
  fix i assume "i < length (take 4 (drop n xs))"
  then have "i < 4" by simp
  then consider "i = 0" | "i = 1" | "i = 2" | "i = 3" by linarith
  then show "take 4 (drop n xs) ! i = [xs ! n, xs ! (n + 1), xs ! (n + 2), xs ! (n + 3)] ! i"
    using assms by cases simp_all
qed

lemma alphaNormalised_nth:
  assumes "4 * k + 3 < length P" "c < 4"
  shows "alphaNormalised P ! (4 * k + c) =
           (if c \<noteq> 3 \<and> P ! (4 * k + 3) = 0 then 0 else P ! (4 * k + c))"
proof -
  have "(4 * k + c) div 4 = k" "(4 * k + c) mod 4 = c"
    using assms(2) by simp_all
  moreover have "4 * k + c < length P"
    using assms by simp
  ultimately show ?thesis
    by (simp add: alphaNormalised_def)
qed

lemma pixelAt_alphaNormalised:
  assumes "x < W" "y < H" "length P = 4 * W * H"
  shows "pixelAt (alphaNormalised P) W x y =
           (if pixelAt P W x y ! 3 = 0 then [0, 0, 0, 0] else pixelAt P W x y)"
proof -
  define k where "k = y * W + x"
  have "Suc y * W \<le> H * W"
    using assms(2) by (intro mult_le_mono1) simp
  then have k: "4 * k + 3 < length P"
    using assms(1,3) by (simp add: algebra_simps k_def)
  have p: "pixelAt P W x y = [P ! (4 * k), P ! (4 * k + 1), P ! (4 * k + 2), P ! (4 * k + 3)]"
    unfolding pixelAt_def k_def [symmetric] using k by (rule take4_drop)
  have q: "pixelAt (alphaNormalised P) W x y =
          [alphaNormalised P ! (4 * k), alphaNormalised P ! (4 * k + 1),
           alphaNormalised P ! (4 * k + 2), alphaNormalised P ! (4 * k + 3)]"
    unfolding pixelAt_def k_def [symmetric]
    by (rule take4_drop) (simp add: length_alphaNormalised k)
  have n: "alphaNormalised P ! (4 * k) = (if P ! (4 * k + 3) = 0 then 0 else P ! (4 * k))"
    "alphaNormalised P ! (4 * k + 1) = (if P ! (4 * k + 3) = 0 then 0 else P ! (4 * k + 1))"
    "alphaNormalised P ! (4 * k + 2) = (if P ! (4 * k + 3) = 0 then 0 else P ! (4 * k + 2))"
    "alphaNormalised P ! (4 * k + 3) = P ! (4 * k + 3)"
    using alphaNormalised_nth [OF k, of 0] alphaNormalised_nth [OF k, of 1]
      alphaNormalised_nth [OF k, of 2] alphaNormalised_nth [OF k, of 3]
    by simp_all
  show ?thesis
    unfolding p q n by simp
qed

lemma header_bytes:
  "(case PutUint32 (replicate 8 0) 0 a of Panic e \<Rightarrow> Panic e
    | Return h0 \<Rightarrow> (case PutUint32 h0 4 b of Panic e \<Rightarrow> Panic e | Return header \<Rightarrow> f header))
   = f (BigEndian_bytes a @ BigEndian_bytes b)"
  by (simp add: PutUint32_def BigEndian_bytes_def numeral_eq_Suc)

lemma alphaBufferOf_Return:
  assumes "img < length s" "s ! img = ImageObj i" "origin_bounds (Bounds L i)" "draw_in_place L"
  shows "alphaBufferOf L s img =
           Return (BigEndian_bytes (word_of_int (Dx (Bounds L i)))
                     @ BigEndian_bytes (word_of_int (Dy (Bounds L i)))
                     @ alphaNormalised (drawnPix L i),
                   s @ [NRGBAObj ((freshNRGBA (Bounds L i))\<lparr>Pix := alphaNormalised (drawnPix L i)\<rparr>)])"
proof -
  let ?b = "Bounds L i"
  let ?W = "nat (Dx ?b)" and ?H = "nat (Dy ?b)"
  let ?p0 = "freshNRGBA ?b"
  let ?p1 = "?p0\<lparr>Pix := drawnPix L i\<rparr>"
  let ?s1 = "s @ [NRGBAObj ?p0]"
  let ?s2 = "s @ [NRGBAObj ?p1]"
  let ?s3 = "s @ [NRGBAObj (?p0\<lparr>Pix := alphaNormalised (drawnPix L i)\<rparr>)]"
  have ob: "Min_pt ?b = origin" "0 \<le> Dx ?b" "0 \<le> Dy ?b" "4 * Dx ?b * Dy ?b \<le> max_int"
    using assms(3) by (simp_all add: origin_bounds_def)
  have li: "loadImage s img = Return i"
    using assms(1,2) by (simp add: loadImage_def)
  have new: "NewNRGBA s ?b = Return (length s, ?s1)"
    using ob by (simp add: NewNRGBA_def alloc_def freshNRGBA_def)
  have li1: "loadImage ?s1 img = Return i"
    using assms(1,2) by (simp add: loadImage_def nth_append)
  have draw: "draw_Draw L ?s1 (length s) ?b img (Min_pt ?b) = Return ?s2"
    by (simp add: draw_Draw_def loadNRGBA_def li1 drawnPix_def)
  have len: "length (Pix ?p1) = 4 * ?W * ?H"
  proof -
    have "length (drawnPix L i) = length (Pix ?p0)"
      using assms(4) by (simp add: draw_in_place_def drawnPix_def)
    also have "\<dots> = nat (4 * Dx ?b * Dy ?b)"
      by (simp add: freshNRGBA_def)
    also have "\<dots> = 4 * ?W * ?H"
      using ob(2,3) by (simp add: nat_mult_distrib)
    finally show ?thesis by simp
  qed
  have "zeroTransparent (length s) (int ?W) (int ?H) ?s2 =
          Return (?s2[length s := NRGBAObj (?p1\<lparr>Pix := alphaNormalised (Pix ?p1)\<rparr>)])"
    by (rule zeroTransparent_Return [OF _ _ _ _ len])
       (use ob in \<open>simp_all add: freshNRGBA_def\<close>)
  then have zt: "zeroTransparent (length s) (Dx ?b) (Dy ?b) ?s2 = Return ?s3"
    using ob(2,3) by simp
  have ld3: "loadNRGBA ?s3 (length s) = Return (?p0\<lparr>Pix := alphaNormalised (drawnPix L i)\<rparr>)"
    by (simp add: loadNRGBA_def)
  show ?thesis
    unfolding alphaBufferOf_def li outcome.case Let_def new prod.case draw zt header_bytes ld3
    by simp
qed

subsection \<open>The loops touch one object of the store\<close>

lemma zeroPixel_lift:
  assumes "rgba < length s" "s ! rgba = NRGBAObj p"
  shows "zeroPixel rgba y x s = map_outcome (\<lambda>p'. s[rgba := NRGBAObj p']) (zeroPixelOn y x p)"
proof -
  have ld: "loadNRGBA s rgba = Return p"
    using assms by (simp add: loadNRGBA_def)
  have same: "s[rgba := NRGBAObj p] = s"
    using assms(2) by (rule store_update_same)
  show ?thesis
    by (simp add: zeroPixel_def zeroPixelOn_def ld Let_def same split: outcome.splits)
qed

lemma forRange_lift:
  assumes body: "\<And>i s p. rgba < length s \<Longrightarrow> s ! rgba = NRGBAObj p \<Longrightarrow>
            body i s = map_outcome (\<lambda>p'. s[rgba := NRGBAObj p']) (bodyOn i p)"
    and "rgba < length s" "s ! rgba = NRGBAObj p"
  shows "forRange xs body s = map_outcome (\<lambda>p'. s[rgba := NRGBAObj p']) (forRange xs bodyOn p)"
  using assms(2,3)
proof (induction xs arbitrary: s p)
  case Nil
  then show ?case by (simp add: store_update_same)
next
  case (Cons i xs)
  show ?case
  proof (cases "bodyOn i p")
    case (Panic e)
    then show ?thesis
      using body [OF Cons.prems, of i] by simp
  next
    case (Return p1)
    let ?s1 = "s[rgba := NRGBAObj p1]"
    have b: "body i s = Return ?s1"
      using body [OF Cons.prems, of i] Return by simp
    have "forRange xs body ?s1 =
            map_outcome (\<lambda>p'. ?s1[rgba := NRGBAObj p']) (forRange xs bodyOn p1)"
      by (rule Cons.IH) (use Cons.prems in simp_all)
    then show ?thesis
      by (simp add: b Return)
  qed
qed

lemma zeroTransparent_lift:
  assumes "rgba < length s" "s ! rgba = NRGBAObj p"
  shows "zeroTransparent rgba w h s =
           map_outcome (\<lambda>p'. s[rgba := NRGBAObj p']) (zeroTransparentOn w h p)"
  unfolding zeroTransparent_def zeroTransparentOn_def
proof (rule forRange_lift [OF _ assms])
  fix y :: int and t :: "'a store" and q
  assume "rgba < length t" "t ! rgba = NRGBAObj q"
  then show "forRange (rangeInt w) (zeroPixel rgba y) t =
               map_outcome (\<lambda>p'. t[rgba := NRGBAObj p']) (forRange (rangeInt w) (zeroPixelOn y) q)"
    by (intro forRange_lift [where body = "zeroPixel rgba y" and bodyOn = "zeroPixelOn y"]
          zeroPixel_lift)
qed

lemma alphaBufferOf_lift:
  assumes "img < length s" "s ! img = ImageObj i"
  shows "alphaBufferOf L s img =
           map_outcome (\<lambda>(buf, p). (buf, s @ [NRGBAObj p])) (alphaBufferOn L i)"
proof -
  let ?b = "Bounds L i"
  let ?p0 = "freshNRGBA ?b"
  let ?p1 = "?p0\<lparr>Pix := drawnPix L i\<rparr>"
  let ?s1 = "s @ [NRGBAObj ?p0]"
  let ?s2 = "s @ [NRGBAObj ?p1]"
  have li: "loadImage s img = Return i"
    using assms(1,2) by (simp add: loadImage_def)
  show ?thesis
  proof (cases "Dx ?b < 0 \<or> Dy ?b < 0 \<or> max_int < 4 * Dx ?b * Dy ?b")
    case True
    then show ?thesis
      by (simp add: alphaBufferOf_def alphaBufferOn_def li NewNRGBA_def Let_def)
  next
    case False
    then have new: "NewNRGBA s ?b = Return (length s, ?s1)"
      by (simp add: NewNRGBA_def alloc_def freshNRGBA_def)
    have li1: "loadImage ?s1 img = Return i"
      using assms(1,2) by (simp add: loadImage_def nth_append)
    have draw: "draw_Draw L ?s1 (length s) ?b img (Min_pt ?b) = Return ?s2"
      by (simp add: draw_Draw_def loadNRGBA_def li1 drawnPix_def)
    have zt: "zeroTransparent (length s) (Dx ?b) (Dy ?b) ?s2 =
            map_outcome (\<lambda>p'. s @ [NRGBAObj p']) (zeroTransparentOn (Dx ?b) (Dy ?b) ?p1)"
      using zeroTransparent_lift [of "length s" ?s2 ?p1 "Dx ?b" "Dy ?b"] by simp
    show ?thesis
    proof (cases "zeroTransparentOn (Dx ?b) (Dy ?b) ?p1")
      case (Panic e)
      then show ?thesis
        unfolding alphaBufferOf_def li outcome.case Let_def new prod.case draw zt
        using False by (simp add: alphaBufferOn_def Let_def)
    next
      case (Return p2)
      have ld3: "loadNRGBA (s @ [NRGBAObj p2]) (length s) = Return p2"
        by (simp add: loadNRGBA_def)
      show ?thesis
        unfolding alphaBufferOf_def li outcome.case Let_def new prod.case draw zt
        using False by (simp add: alphaBufferOn_def Let_def Return header_bytes ld3)
    qed
  qed
qed

subsection \<open>What \<open>computeHashes\<close> returns\<close>

lemma slice_to_hashBuffer: "slice_to (hashBuffer L d) 16 = Return (take 16 (hashBuffer L d))"
  by (simp add: slice_to_def length_hashBuffer)

lemma computeHashes_png:
  assumes "image_Decode L b = Inr (i, fmt)" "ToLower fmt = ''png''"
  shows "computeHashes L s b =
           (case alphaBufferOn L i of Panic e \<Rightarrow> Panic e
            | Return (buf, p) \<Rightarrow>
                Return (case imaging_Encode_PNG L i of Inl err \<Rightarrow> Inl err
                        | Inr png \<Rightarrow>
                            Inr \<lparr>Standard = hashBuffer L png,
                                 AlphaNormalized = hashBuffer L buf,
                                 AlphaNormalizedCompact = take 16 (hashBuffer L buf)\<rparr>,
                        s @ [ImageObj i, NRGBAObj p]))"
proof -
  let ?s0 = "s @ [ImageObj i]"
  have ab: "alphaBufferOf L ?s0 (length s) =
              map_outcome (\<lambda>(buf, p). (buf, ?s0 @ [NRGBAObj p])) (alphaBufferOn L i)"
    by (rule alphaBufferOf_lift) simp_all
  have enc: "imaging_Encode L (s @ [ImageObj i, NRGBAObj p]) (length s)
               = Return (imaging_Encode_PNG L i)" for p
    by (simp add: imaging_Encode_def loadImage_def nth_append)
  show ?thesis
    unfolding computeHashes_def assms(1) sum.case prod.case alloc_def ab
    using assms(2)
    by (auto simp: enc slice_to_hashBuffer Let_def split: outcome.splits sum.splits)
qed

lemma alphaBufferOn_Return:
  assumes "origin_bounds (Bounds L i)" "draw_in_place L"
  shows "alphaBufferOn L i =
           Return (BigEndian_bytes (word_of_int (Dx (Bounds L i)))
                     @ BigEndian_bytes (word_of_int (Dy (Bounds L i)))
                     @ alphaNormalised (drawnPix L i),
                   (freshNRGBA (Bounds L i))\<lparr>Pix := alphaNormalised (drawnPix L i)\<rparr>)"
proof -
  have "alphaBufferOf L [ImageObj i] 0 =
          map_outcome (\<lambda>(buf, p). (buf, [ImageObj i] @ [NRGBAObj p])) (alphaBufferOn L i)"
    by (rule alphaBufferOf_lift) simp_all
  moreover have "alphaBufferOf L [ImageObj i] 0 =
           Return (BigEndian_bytes (word_of_int (Dx (Bounds L i)))
                     @ BigEndian_bytes (word_of_int (Dy (Bounds L i)))
                     @ alphaNormalised (drawnPix L i),
                   [ImageObj i] @ [NRGBAObj ((freshNRGBA (Bounds L i))\<lparr>Pix := alphaNormalised (drawnPix L i)\<rparr>)])"
    by (rule alphaBufferOf_Return [OF _ _ assms]) simp_all
  ultimately show ?thesis
    by (cases "alphaBufferOn L i") auto
qed

lemma computeHashes_Return:
  assumes "image_Decode L b = Inr (i, fmt)" "ToLower fmt = ''png''"
    "origin_bounds (Bounds L i)" "draw_in_place L"
  shows "computeHashes L s b =
           Return (case imaging_Encode_PNG L i of Inl err \<Rightarrow> Inl err
                   | Inr png \<Rightarrow>
                       Inr \<lparr>Standard = hashBuffer L png,
                            AlphaNormalized =
                              hashBuffer L (BigEndian_bytes (word_of_int (Dx (Bounds L i)))
                                @ BigEndian_bytes (word_of_int (Dy (Bounds L i)))
                                @ alphaNormalised (drawnPix L i)),
                            AlphaNormalizedCompact =
                              take 16 (hashBuffer L (BigEndian_bytes (word_of_int (Dx (Bounds L i)))
                                @ BigEndian_bytes (word_of_int (Dy (Bounds L i)))
                                @ alphaNormalised (drawnPix L i)))\<rparr>,
                   s @ [ImageObj i,
                        NRGBAObj ((freshNRGBA (Bounds L i))\<lparr>Pix := alphaNormalised (drawnPix L i)\<rparr>)])"
  by (simp add: computeHashes_png [OF assms(1,2)] alphaBufferOn_Return [OF assms(3,4)])

lemma length_drawnPix:
  assumes "origin_bounds (Bounds L i)" "draw_in_place L"
  shows "length (drawnPix L i) = 4 * nat (Dx (Bounds L i)) * nat (Dy (Bounds L i))"
proof -
  have "length (drawnPix L i) = nat (4 * Dx (Bounds L i) * Dy (Bounds L i))"
    using assms(2) by (simp add: draw_in_place_def drawnPix_def freshNRGBA_def)
  then show ?thesis
    using assms(1) by (simp add: origin_bounds_def nat_mult_distrib)
qed

lemma same_visible_alphaNormalised:
  assumes "same_visible P Q"
  shows "alphaNormalised P = alphaNormalised Q"
proof (rule nth_equalityI)
  show "length (alphaNormalised P) = length (alphaNormalised Q)"
    using assms by (simp add: same_visible_def length_alphaNormalised)
next
  fix j assume "j < length (alphaNormalised P)"
  then have j: "j < length P" "j < length Q"
    using assms by (simp_all add: same_visible_def length_alphaNormalised)
  have "P ! (4 * (j div 4) + 3) = Q ! (4 * (j div 4) + 3)"
    "P ! (4 * (j div 4) + 3) = 0 \<and> j mod 4 \<noteq> 3 \<or> P ! j = Q ! j"
    using assms j(1) unfolding same_visible_def by blast+
  then show "alphaNormalised P ! j = alphaNormalised Q ! j"
    using j by (auto simp: alphaNormalised_def)
qed

lemma stub_draw_in_place: "draw_in_place stub_lib"
  by (auto simp: draw_in_place_def stub_lib_def min_def)

lemma stub_png_decoder_ok: "png_decoder_ok stub_lib"
  by (auto simp: png_decoder_ok_def stub_lib_def stub_Decode_def origin_bounds_def scenario_def
      scenario_zeroed_def Dx_def Dy_def max_int_def origin_def split: if_splits)

lemma stub_drawnPix: "drawnPix stub_lib scenario = Pix scenario"
  "drawnPix stub_lib scenario_zeroed = Pix scenario_zeroed"
  by (simp_all add: drawnPix_def stub_lib_def freshNRGBA_def scenario_def scenario_zeroed_def
      Dx_def Dy_def origin_def)

lemma BigEndian_bytes_2: "BigEndian_bytes (word_of_int 2) = [0, 0, 0, 2]"
  by (simp add: BigEndian_bytes_def drop_bit_eq_div)

subsection \<open>Concrete runs\<close>

lemma alphaNormalised_scenario: "alphaNormalised (Pix scenario) = Pix scenario_zeroed"
  by (simp add: alphaNormalised_def scenario_def scenario_zeroed_def upt_rec)

lemma alphaNormalised_zeroed: "alphaNormalised (Pix scenario_zeroed) = Pix scenario_zeroed"
  by (simp add: alphaNormalised_def scenario_def scenario_zeroed_def upt_rec)

lemma stub_Bounds: "Bounds stub_lib scenario = Rect scenario"
  "Bounds stub_lib scenario_zeroed = Rect scenario"
  by (simp_all add: stub_lib_def scenario_def scenario_zeroed_def)

lemma Rect_scenario: "Dx (Rect scenario) = 2" "Dy (Rect scenario) = 2"
  "origin_bounds (Rect scenario)"
  "(freshNRGBA (Rect scenario))\<lparr>Pix := Pix scenario_zeroed\<rparr> = scenario_zeroed"
  by (simp_all add: scenario_def scenario_zeroed_def Dx_def Dy_def origin_bounds_def origin_def
      max_int_def freshNRGBA_def)

lemma stub_run:
  "computeHashes stub_lib s [1] =
     Return (Inr scenario_response, s @ [ImageObj scenario, NRGBAObj scenario_zeroed])"
proof -
  have d: "image_Decode stub_lib [1] = Inr (scenario, ''png'')"
    by (simp add: stub_lib_def stub_Decode_def)
  have l: "ToLower ''png'' = ''png''"
    by (simp add: ToLower_def toLowerChar_def)
  have ob: "origin_bounds (Bounds stub_lib scenario)"
    by (simp add: stub_Bounds Rect_scenario)
  have enc: "imaging_Encode_PNG stub_lib scenario = Inr (Pix scenario)"
    by (simp add: stub_lib_def)
  show ?thesis
    unfolding computeHashes_Return [OF d l ob stub_draw_in_place] enc sum.case
      stub_Bounds Rect_scenario stub_drawnPix alphaNormalised_scenario BigEndian_bytes_2
    by (simp add: scenario_response_def scenario_buffer_def scenario_zeroed_def)
qed

lemma stub_run_zeroed:
  "computeHashes stub_lib s [2] =
     Return (Inr zeroed_response, s @ [ImageObj scenario_zeroed, NRGBAObj scenario_zeroed])"
proof -
  have d: "image_Decode stub_lib [2] = Inr (scenario_zeroed, ''png'')"
    by (simp add: stub_lib_def stub_Decode_def)
  have l: "ToLower ''png'' = ''png''"
    by (simp add: ToLower_def toLowerChar_def)
  have ob: "origin_bounds (Bounds stub_lib scenario_zeroed)"
    by (simp add: stub_Bounds Rect_scenario)
  have enc: "imaging_Encode_PNG stub_lib scenario_zeroed = Inr (Pix scenario_zeroed)"
    by (simp add: stub_lib_def)
  show ?thesis
    unfolding computeHashes_Return [OF d l ob stub_draw_in_place] enc sum.case
      stub_Bounds Rect_scenario stub_drawnPix alphaNormalised_zeroed BigEndian_bytes_2
    by (simp add: zeroed_response_def scenario_buffer_def scenario_zeroed_def)
qed

lemma computeHashes_Inr_decoded:
  assumes "computeHashes L s b = Return (Inr r, t)"
  shows "\<exists>i fmt. image_Decode L b = Inr (i, fmt) \<and> ToLower fmt = ''png''"
proof (cases "image_Decode L b")
  case (Inl e)
  then show ?thesis
    using assms by (simp add: computeHashes_def)
next
  case (Inr a)
  obtain i fmt where a: "a = (i, fmt)"
    by (cases a)
  have "ToLower fmt = ''png''"
  proof (rule ccontr)
    assume "ToLower fmt \<noteq> ''png''"
    then show False
      using assms Inr a by (simp add: computeHashes_def alloc_def)
  qed
  then show ?thesis
    using Inr a by simp
qed

lemma BigEndian_bytes_two: "BigEndian_bytes 2 = [0, 0, 0, 2]"
  by (simp add: BigEndian_bytes_def drop_bit_eq_div)

lemma all_below_length: "(\<forall>j < length xs. P j) \<longleftrightarrow> (\<forall>j \<in> set [0..<length xs]. P j)"
  by auto

lemma scenario_same_visible: "same_visible (Pix scenario) (Pix scenario_zeroed)"
  unfolding same_visible_def all_below_length
  by (simp add: scenario_def scenario_zeroed_def upt_rec)

lemma stub_standard_differ:
  "sha256_Sum256 stub_lib (Pix scenario) \<noteq> sha256_Sum256 stub_lib (Pix scenario_zeroed)"
proof -
  have "take 32 (Pix scenario @ replicate 32 0) \<noteq> take 32 (Pix scenario_zeroed @ replicate 32 0)"
    by (simp add: scenario_def scenario_zeroed_def)
  then show ?thesis
    by (simp add: stub_lib_def stub_Sum256_def Abs_digest_inject)
qed

subsection \<open>Cache keys\<close>

lemma normalizeURL_bare: "normalizeURL ''http://x/img.png?'' = (''http://x/img.png?'', None)"
  by code_simp

lemma normalizeURL_query: "normalizeURL ''http://x/img.png?a=1'' = (''http://x/img.png'', None)"
  by code_simp

lemma normalizeURL_example1:
  "normalizeURL ''http://x/img.png?a=1#frag'' = (''http://x/img.png'', None)"
  by code_simp

lemma normalizeURL_example2: "normalizeURL ''http://x/img.png?b=2'' = (''http://x/img.png'', None)"
  by code_simp

lemma normalizeURL_plain: "normalizeURL ''http://x/img.png'' = (''http://x/img.png'', None)"
  by code_simp

lemma URL_String_base_fields:
  assumes "Scheme v = Scheme u" "Opaque v = Opaque u" "User v = User u" "Host v = Host u"
    "Path v = Path u" "RawPath v = RawPath u" "OmitHost v = OmitHost u"
  shows "URL_String_base v = URL_String_base u"
  unfolding URL_String_base_def EscapedPath_def by (simp only: assms)

lemma URL_String_base_stripped:
  "URL_String_base (u\<lparr>RawQuery := q, Fragment := f\<rparr>) = URL_String_base u"
  by (rule URL_String_base_fields) simp_all

lemma URL_String_stripped:
  "URL_String (u\<lparr>RawQuery := [], Fragment := []\<rparr>)
     = URL_String_base u @ (if ForceQuery u then ''?'' else [])"
  by (simp add: URL_String_def URL_String_base_stripped)

lemma normalizeURL_Parse:
  "Parse raw = Inr u \<Longrightarrow>
     normalizeURL raw = (URL_String_base u @ (if ForceQuery u then ''?'' else []), None)"
  by (simp add: normalizeURL_def URL_String_stripped)

lemma normalizeURL_same:
  assumes "Parse a = Inr u" "Parse b = Inr v"
    and "u\<lparr>RawQuery := [], Fragment := [], RawFragment := []\<rparr>
           = v\<lparr>RawQuery := [], Fragment := [], RawFragment := []\<rparr>"
  shows "normalizeURL a = normalizeURL b"
proof -
  let ?strip = "\<lambda>w :: URL. w\<lparr>RawQuery := [], Fragment := [], RawFragment := []\<rparr>"
  have s: "URL_String (w\<lparr>RawQuery := [], Fragment := []\<rparr>)
          = URL_String_base (?strip w) @ (if ForceQuery (?strip w) then ''?'' else [])" for w
  proof -
    have "URL_String_base (?strip w) = URL_String_base w"
      by (rule URL_String_base_fields) simp_all
    then show ?thesis
      by (simp add: URL_String_stripped)
  qed
  show ?thesis
    by (simp only: normalizeURL_def assms(1,2) sum.case s assms(3))
qed

subsection \<open>The paths of the handler\<close>

lemma hashAndStore_cases:
  assumes "hashAndStore L k b st = (out, st')"
  shows "(cache st' = cache st \<and> (\<forall>hashes. out \<noteq> Return (writeJSON hashes)))
         \<or> (\<exists>hashes h. computeHashes L (heap st) b = Return (Inr hashes, h)
               \<and> out = Return (writeJSON hashes) \<and> cache st' = (cache st)(k \<mapsto> hashes))"
  using assms
  by (auto simp: hashAndStore_def split: outcome.splits sum.splits prod.splits)

lemma handleHash_shape:
  assumes "handleHash L get r st = (out, st')"
  shows "st' = st \<and> (\<forall>hashes. out \<noteq> Return (writeJSON hashes))
         \<or> st' = st \<and> (\<exists>key hashes. cache st key = Some hashes \<and> out = Return (writeJSON hashes))
         \<or> (\<exists>key bytes. hashAndStore L key bytes st = (out, st'))"
proof (cases "query_url r \<noteq> []")
  case True
  obtain cleaned e where n: "normalizeURL (query_url r) = (cleaned, e)"
    by (cases "normalizeURL (query_url r)")
  obtain resp err where g: "get (query_url r) = (resp, err)"
    by (cases "get (query_url r)")
  show ?thesis
    using assms True
    by (simp add: handleHash_def Let_def n g Error_method_def
        split: option.splits outcome.splits sum.splits bool.splits if_splits) blast+
next
  case False
  then show ?thesis
    using assms
    by (simp add: handleHash_def Let_def split: option.splits sum.splits) blast+
qed

lemma handleHash_cases:
  assumes "handleHash L get r st = (out, st')"
  shows "cache st' = cache st \<and> (\<forall>hashes. out \<noteq> Return (writeJSON hashes))
         \<or> st' = st \<and> (\<exists>key hashes. cache st key = Some hashes \<and> out = Return (writeJSON hashes))
         \<or> (\<exists>key bytes hashes h. computeHashes L (heap st) bytes = Return (Inr hashes, h)
               \<and> out = Return (writeJSON hashes) \<and> cache st' = (cache st)(key \<mapsto> hashes))"
  using handleHash_shape [OF assms] hashAndStore_cases by (metis (no_types, lifting))

lemma recoverMiddleware_cases:
  assumes "recoverMiddleware next st = (reply, st')"
  shows "(\<exists>rec. next st = (Panic rec, st') \<and> reply = http_Error ''Internal server error'' rec 500)
         \<or> next st = (Return reply, st')"
  using assms by (auto simp: recoverMiddleware_def split: prod.splits outcome.splits)

subsection \<open>Concrete requests\<close>

lemma stub_run_jpeg:
  "computeHashes stub_lib s [3] =
     Return (Inl (ErrorString ''only PNG images are supported''), s @ [ImageObj scenario])"
proof -
  have "ToLower ''jpeg'' \<noteq> ''png''"
    by (simp add: ToLower_def toLowerChar_def)
  then show ?thesis
    by (simp add: computeHashes_def stub_lib_def stub_Decode_def alloc_def)
qed

lemma upload_jpeg:
  "handleHash stub_lib get (upload_request [3]) empty_state =
     (Return (http_Error ''Failed to compute hashes''
                (ErrorString ''only PNG images are supported'') 500),
      \<lparr>cache = Map.empty, heap = [ImageObj scenario]\<rparr>)"
  by (simp add: handleHash_def upload_request_def empty_state_def hashAndStore_def stub_run_jpeg)

lemma upload_png:
  "handleHash stub_lib get (upload_request [1]) empty_state =
     (Return (writeJSON scenario_response),
      \<lparr>cache = [''sha256:'' @ sha256Hex stub_lib [1] \<mapsto> scenario_response],
       heap = [ImageObj scenario, NRGBAObj scenario_zeroed]\<rparr>)"
  by (simp add: handleHash_def upload_request_def empty_state_def hashAndStore_def stub_run)

lemma fetch_ok:
  assumes "u \<noteq> []" "normalizeURL u = (k, None)"
  shows "handleHash stub_lib (answer_with 200) (url_request u) empty_state =
     (Return (writeJSON scenario_response),
      \<lparr>cache = [''url:'' @ k \<mapsto> scenario_response],
       heap = [ImageObj scenario, NRGBAObj scenario_zeroed]\<rparr>)"
  using assms
  by (simp add: handleHash_def url_request_def empty_state_def hashAndStore_def stub_run
      answer_with_def)

lemma fetch_not_200:
  assumes "query_url r \<noteq> []" "normalizeURL (query_url r) = (k, None)"
    "cache st (''url:'' @ k) = None" "get (query_url r) = (Some rsp, None)"
    "StatusCode rsp \<noteq> 200"
  shows "handleHash L get r st = (Panic nil_dereference, st)"
  using assms by (simp add: handleHash_def Error_method_def)

subsection \<open>The key a request is cached under\<close>

lemma upload_key:
  assumes "query_url r = []" "FormFile r = Inr (Inr bytes)"
  shows "handleHash L get r st =
     (case cache st (''sha256:'' @ hex_EncodeToString (Rep_digest (sha256_Sum256 L bytes))) of
        Some val \<Rightarrow> (Return (writeJSON val), st)
      | None \<Rightarrow>
          hashAndStore L (''sha256:'' @ hex_EncodeToString (Rep_digest (sha256_Sum256 L bytes)))
            bytes st)"
  using assms by (simp add: handleHash_def sha256Hex_def Let_def split: option.splits)

lemma url_key_hit:
  assumes "query_url r \<noteq> []" "Parse (query_url r) = Inr u"
    "cache st (''url:'' @ URL_String (u\<lparr>RawQuery := [], Fragment := []\<rparr>)) = Some val"
  shows "handleHash L get r st = (Return (writeJSON val), st)"
  using assms by (simp add: handleHash_def normalizeURL_def Let_def)

lemma url_key_miss:
  assumes "query_url r \<noteq> []" "Parse (query_url r) = Inr u"
    "cache st (''url:'' @ URL_String (u\<lparr>RawQuery := [], Fragment := []\<rparr>)) = None"
    "get (query_url r) = (Some rsp, None)" "StatusCode rsp = 200" "Body rsp = Inr bytes"
  shows "handleHash L get r st =
           hashAndStore L (''url:'' @ URL_String (u\<lparr>RawQuery := [], Fragment := []\<rparr>)) bytes st"
  using assms by (simp add: handleHash_def normalizeURL_def Let_def)

lemma example_urls_same_key:
  "normalizeURL ''http://x/img.png?a=1#frag'' = normalizeURL ''http://x/img.png?b=2''"
  by (simp only: normalizeURL_example1 normalizeURL_example2)

section \<open>The fingerprint engine: properties\<close>

text \<open>
  C1. For a decoded PNG image whose fingerprint is returned, \<open>alpha_normalized_hash\<close>
  is the hash of the buffer made of the width and the height as big-endian \<open>uint32\<close>
  followed by four bytes for each pixel, row after row; the pixel \<open>(x, y)\<close> is
  \<open>(0, 0, 0, 0)\<close> when its alpha byte in the \<open>NRGBA\<close> copy of the decoded image is 0,
  and is the pixel of that copy, unchanged, otherwise.
\<close>

theorem alpha_hash_is_hash_of_normalised_buffer:
  assumes "image_Decode L b = Inr (i, fmt)" and "ToLower fmt = ''png''"
    and "origin_bounds (Bounds L i)" and "draw_in_place L"
    and "computeHashes L s b = Return (Inr r, t)"
    and "W = nat (Dx (Bounds L i))" and "H = nat (Dy (Bounds L i))"
    and "buf = BigEndian_bytes (word_of_int (Dx (Bounds L i)))
                 @ BigEndian_bytes (word_of_int (Dy (Bounds L i)))
                 @ alphaNormalised (drawnPix L i)"
  shows "alphaBufferOf L (s @ [ImageObj i]) (length s) = Return (buf, t)
         \<and> AlphaNormalized r = hashBuffer L buf
         \<and> length buf = 8 + 4 * W * H
         \<and> take 4 buf = BigEndian_bytes (word_of_int (Dx (Bounds L i)))
         \<and> take 4 (drop 4 buf) = BigEndian_bytes (word_of_int (Dy (Bounds L i)))
         \<and> (\<forall>x < W. \<forall>y < H.
               pixelAt (drop 8 buf) W x y =
                 (if pixelAt (drawnPix L i) W x y ! 3 = 0 then [0, 0, 0, 0]
                  else pixelAt (drawnPix L i) W x y))"
proof -
  let ?D = "drawnPix L i"
  have len: "length ?D = 4 * W * H"
    using length_drawnPix [OF assms(3,4)] assms(6,7) by simp
  have be: "length (BigEndian_bytes v) = 4" for v
    by (simp add: BigEndian_bytes_def)
  have run: "computeHashes L s b =
           Return (case imaging_Encode_PNG L i of Inl err \<Rightarrow> Inl err
                   | Inr png \<Rightarrow>
                       Inr \<lparr>Standard = hashBuffer L png, AlphaNormalized = hashBuffer L buf,
                            AlphaNormalizedCompact = take 16 (hashBuffer L buf)\<rparr>,
                   s @ [ImageObj i, NRGBAObj ((freshNRGBA (Bounds L i))\<lparr>Pix := alphaNormalised ?D\<rparr>)])"
    unfolding assms(8) by (rule computeHashes_Return [OF assms(1-4)])
  have t: "t = s @ [ImageObj i, NRGBAObj ((freshNRGBA (Bounds L i))\<lparr>Pix := alphaNormalised ?D\<rparr>)]"
    and r: "AlphaNormalized r = hashBuffer L buf"
    using assms(5) unfolding run by (auto split: sum.splits)
  have "alphaBufferOf L (s @ [ImageObj i]) (length s) =
          Return (buf, (s @ [ImageObj i])
                    @ [NRGBAObj ((freshNRGBA (Bounds L i))\<lparr>Pix := alphaNormalised ?D\<rparr>)])"
    unfolding assms(8) by (rule alphaBufferOf_Return [OF _ _ assms(3,4)]) simp_all
  then have ab: "alphaBufferOf L (s @ [ImageObj i]) (length s) = Return (buf, t)"
    by (simp add: t)
  have d8: "drop 8 buf = alphaNormalised ?D"
    by (simp add: assms(8) be)
  have px: "\<forall>x < W. \<forall>y < H.
               pixelAt (drop 8 buf) W x y =
                 (if pixelAt ?D W x y ! 3 = 0 then [0, 0, 0, 0] else pixelAt ?D W x y)"
    unfolding d8 using pixelAt_alphaNormalised [OF _ _ len] by blast
  have l: "length buf = 8 + 4 * W * H"
    by (simp add: assms(8) be length_alphaNormalised len)
  have h1: "take 4 buf = BigEndian_bytes (word_of_int (Dx (Bounds L i)))"
    and h2: "take 4 (drop 4 buf) = BigEndian_bytes (word_of_int (Dy (Bounds L i)))"
    by (simp_all add: assms(8) be)
  show ?thesis
    using ab r l h1 h2 px by blast
qed

theorem alpha_hash_is_hash_of_normalised_buffer_witness:
  "AlphaNormalized scenario_response = hashBuffer stub_lib scenario_buffer
   \<and> take 4 scenario_buffer = [0, 0, 0, 2]
   \<and> take 4 (drop 4 scenario_buffer) = [0, 0, 0, 2]
   \<and> pixelAt (drop 8 scenario_buffer) 2 0 0 = [255, 0, 0, 255]
   \<and> pixelAt (drop 8 scenario_buffer) 2 1 0 = [0, 0, 0, 0]
   \<and> pixelAt (drop 8 scenario_buffer) 2 0 1 = [0, 0, 255, 128]
   \<and> pixelAt (drop 8 scenario_buffer) 2 1 1 = [0, 0, 0, 0]"
proof -
  have d: "image_Decode stub_lib [1] = Inr (scenario, ''png'')"
    by (simp add: stub_lib_def stub_Decode_def)
  have l: "ToLower ''png'' = ''png''"
    by (simp add: ToLower_def toLowerChar_def)
  have ob: "origin_bounds (Bounds stub_lib scenario)"
    by (simp add: stub_Bounds Rect_scenario)
  have run: "computeHashes stub_lib [] [1] =
     Return (Inr scenario_response, [ImageObj scenario, NRGBAObj scenario_zeroed])"
    using stub_run [of "[]"] by simp
  have W: "(2::nat) = nat (Dx (Bounds stub_lib scenario))"
    and H: "(2::nat) = nat (Dy (Bounds stub_lib scenario))"
    by (simp_all add: stub_Bounds Rect_scenario)
  have buf: "scenario_buffer =
      BigEndian_bytes (word_of_int (Dx (Bounds stub_lib scenario)))
        @ BigEndian_bytes (word_of_int (Dy (Bounds stub_lib scenario)))
        @ alphaNormalised (drawnPix stub_lib scenario)"
    by (simp add: stub_Bounds Rect_scenario stub_drawnPix alphaNormalised_scenario
        BigEndian_bytes_two scenario_buffer_def scenario_zeroed_def)
  note th = alpha_hash_is_hash_of_normalised_buffer [OF d l ob stub_draw_in_place run W H buf]
  have px: "pixelAt (drawnPix stub_lib scenario) 2 0 0 = [255, 0, 0, 255]"
    "pixelAt (drawnPix stub_lib scenario) 2 1 0 = [0, 255, 0, 0]"
    "pixelAt (drawnPix stub_lib scenario) 2 0 1 = [0, 0, 255, 128]"
    "pixelAt (drawnPix stub_lib scenario) 2 1 1 = [255, 255, 0, 0]"
    unfolding stub_drawnPix by (simp_all add: scenario_def pixelAt_def)
  have q: "pixelAt (drop 8 scenario_buffer) 2 x y =
             (if pixelAt (drawnPix stub_lib scenario) 2 x y ! 3 = 0 then [0, 0, 0, 0]
              else pixelAt (drawnPix stub_lib scenario) 2 x y)" if "x < 2" "y < 2" for x y
    using th that by blast
  have "pixelAt (drop 8 scenario_buffer) 2 0 0 = [255, 0, 0, 255]"
    "pixelAt (drop 8 scenario_buffer) 2 1 0 = [0, 0, 0, 0]"
    "pixelAt (drop 8 scenario_buffer) 2 0 1 = [0, 0, 255, 128]"
    "pixelAt (drop 8 scenario_buffer) 2 1 1 = [0, 0, 0, 0]"
    by (simp_all only: q [of 0 0] q [of 1 0] q [of 0 1] q [of 1 1] px) simp_all
  moreover have "take 4 scenario_buffer = [0, 0, 0, 2]"
    "take 4 (drop 4 scenario_buffer) = [0, 0, 0, 2]"
    using th by (simp_all add: stub_Bounds Rect_scenario BigEndian_bytes_two)
  ultimately show ?thesis
    using th by simp
qed

text \<open>
  C2. Two PNG images of the same bounds whose \<open>NRGBA\<close> pixels differ at most in the
  colour bytes of pixels with alpha 0 get the same \<open>alpha_normalized_hash\<close> (and the
  same compact form). Their \<open>standard_hash\<close> values are equal exactly when the digests
  of their two PNG encodings are, so they differ whenever those digests do.
\<close>

theorem alpha_hash_ignores_colour_of_transparent_pixels:
  assumes "image_Decode L b1 = Inr (i1, f1)" and "ToLower f1 = ''png''"
    and "image_Decode L b2 = Inr (i2, f2)" and "ToLower f2 = ''png''"
    and "origin_bounds (Bounds L i1)" and "Bounds L i2 = Bounds L i1"
    and "draw_in_place L"
    and "same_visible (drawnPix L i1) (drawnPix L i2)"
    and "computeHashes L s1 b1 = Return (Inr r1, t1)"
    and "computeHashes L s2 b2 = Return (Inr r2, t2)"
    and "imaging_Encode_PNG L i1 = Inr png1" and "imaging_Encode_PNG L i2 = Inr png2"
  shows "AlphaNormalized r1 = AlphaNormalized r2
         \<and> AlphaNormalizedCompact r1 = AlphaNormalizedCompact r2
         \<and> (Standard r1 = Standard r2 \<longleftrightarrow> sha256_Sum256 L png1 = sha256_Sum256 L png2)"
proof -
  have ob2: "origin_bounds (Bounds L i2)"
    using assms(5,6) by simp
  have n: "alphaNormalised (drawnPix L i1) = alphaNormalised (drawnPix L i2)"
    using assms(8) by (rule same_visible_alphaNormalised)
  have r1: "AlphaNormalized r1 =
              hashBuffer L (BigEndian_bytes (word_of_int (Dx (Bounds L i1)))
                @ BigEndian_bytes (word_of_int (Dy (Bounds L i1)))
                @ alphaNormalised (drawnPix L i1))"
    "AlphaNormalizedCompact r1 = take 16 (AlphaNormalized r1)"
    "Standard r1 = hashBuffer L png1"
    using assms(9) unfolding computeHashes_Return [OF assms(1,2,5,7)] assms(11) by auto
  have r2: "AlphaNormalized r2 =
              hashBuffer L (BigEndian_bytes (word_of_int (Dx (Bounds L i1)))
                @ BigEndian_bytes (word_of_int (Dy (Bounds L i1)))
                @ alphaNormalised (drawnPix L i1))"
    "AlphaNormalizedCompact r2 = take 16 (AlphaNormalized r2)"
    "Standard r2 = hashBuffer L png2"
    using assms(10) unfolding computeHashes_Return [OF assms(3,4) ob2 assms(7)] assms(12)
    by (auto simp: assms(6) n)
  show ?thesis
    by (simp add: r1 r2 hashBuffer_eq_iff)
qed

theorem alpha_hash_ignores_colour_of_transparent_pixels_witness:
  "computeHashes stub_lib [] [1] =
     Return (Inr scenario_response, [ImageObj scenario, NRGBAObj scenario_zeroed])
   \<and> computeHashes stub_lib [] [2] =
     Return (Inr zeroed_response, [ImageObj scenario_zeroed, NRGBAObj scenario_zeroed])
   \<and> same_visible (drawnPix stub_lib scenario) (drawnPix stub_lib scenario_zeroed)
   \<and> AlphaNormalized scenario_response = AlphaNormalized zeroed_response
   \<and> AlphaNormalizedCompact scenario_response = AlphaNormalizedCompact zeroed_response
   \<and> Standard scenario_response \<noteq> Standard zeroed_response"
proof -
  have d1: "image_Decode stub_lib [1] = Inr (scenario, ''png'')"
    and d2: "image_Decode stub_lib [2] = Inr (scenario_zeroed, ''png'')"
    by (simp_all add: stub_lib_def stub_Decode_def)
  have l: "ToLower ''png'' = ''png''"
    by (simp add: ToLower_def toLowerChar_def)
  have ob: "origin_bounds (Bounds stub_lib scenario)"
    by (simp add: stub_Bounds Rect_scenario)
  have bd: "Bounds stub_lib scenario_zeroed = Bounds stub_lib scenario"
    by (simp add: stub_Bounds)
  have sv: "same_visible (drawnPix stub_lib scenario) (drawnPix stub_lib scenario_zeroed)"
    unfolding stub_drawnPix by (rule scenario_same_visible)
  have run1: "computeHashes stub_lib [] [1] =
     Return (Inr scenario_response, [ImageObj scenario, NRGBAObj scenario_zeroed])"
    using stub_run [of "[]"] by simp
  have run2: "computeHashes stub_lib [] [2] =
     Return (Inr zeroed_response, [ImageObj scenario_zeroed, NRGBAObj scenario_zeroed])"
    using stub_run_zeroed [of "[]"] by simp
  have e1: "imaging_Encode_PNG stub_lib scenario = Inr (Pix scenario)"
    and e2: "imaging_Encode_PNG stub_lib scenario_zeroed = Inr (Pix scenario_zeroed)"
    by (simp_all add: stub_lib_def)
  show ?thesis
    using alpha_hash_ignores_colour_of_transparent_pixels
            [OF d1 l d2 l ob bd stub_draw_in_place sv run1 run2 e1 e2]
      run1 run2 sv stub_standard_differ
    by simp
qed

text \<open>
  C3. \<open>standard_hash\<close> is the hash of the PNG encoding of the image as it was decoded.
  The loops write the object that \<open>image.NewNRGBA\<close> allocated and no other: after the
  run the store holds the decoded image, as decoded, at the address \<open>img\<close>, and the
  encoder reads there what it would have read before the loops ran.
\<close>

theorem standard_hash_is_of_decoded_image:
  assumes "image_Decode L b = Inr (i, fmt)"
    and "computeHashes L s b = Return (Inr r, t)"
  shows "\<exists>png p. imaging_Encode_PNG L i = Inr png \<and> Standard r = hashBuffer L png
           \<and> t = s @ [ImageObj i, NRGBAObj p]
           \<and> imaging_Encode L t (length s) = imaging_Encode L (s @ [ImageObj i]) (length s)"
proof -
  obtain i' fmt' where d': "image_Decode L b = Inr (i', fmt')" "ToLower fmt' = ''png''"
    using computeHashes_Inr_decoded [OF assms(2)] by blast
  then have d: "image_Decode L b = Inr (i, fmt)" "ToLower fmt = ''png''"
    using assms(1) by simp_all
  obtain buf p where ab: "alphaBufferOn L i = Return (buf, p)"
    using assms(2) unfolding computeHashes_png [OF d]
    by (cases "alphaBufferOn L i") auto
  obtain png where enc: "imaging_Encode_PNG L i = Inr png"
    using assms(2) unfolding computeHashes_png [OF d] ab
    by (cases "imaging_Encode_PNG L i") auto
  have "Standard r = hashBuffer L png" "t = s @ [ImageObj i, NRGBAObj p]"
    using assms(2) unfolding computeHashes_png [OF d] ab enc by auto
  moreover have "imaging_Encode L (s @ [ImageObj i, NRGBAObj p]) (length s)
                   = imaging_Encode L (s @ [ImageObj i]) (length s)"
    by (simp add: imaging_Encode_def loadImage_def nth_append)
  ultimately show ?thesis
    using enc by blast
qed

theorem standard_hash_is_of_decoded_image_witness:
  "image_Decode stub_lib [1] = Inr (scenario, ''png'')
   \<and> computeHashes stub_lib [] [1] =
       Return (Inr scenario_response, [ImageObj scenario, NRGBAObj scenario_zeroed])
   \<and> imaging_Encode_PNG stub_lib scenario = Inr (Pix scenario)
   \<and> Standard scenario_response = hashBuffer stub_lib (Pix scenario)
   \<and> imaging_Encode stub_lib [ImageObj scenario, NRGBAObj scenario_zeroed] 0
       = imaging_Encode stub_lib [ImageObj scenario] 0"
proof -
  have d: "image_Decode stub_lib [1] = Inr (scenario, ''png'')"
    by (simp add: stub_lib_def stub_Decode_def)
  have run: "computeHashes stub_lib [] [1] =
     Return (Inr scenario_response, [ImageObj scenario, NRGBAObj scenario_zeroed])"
    using stub_run [of "[]"] by simp
  have enc: "imaging_Encode_PNG stub_lib scenario = Inr (Pix scenario)"
    by (simp add: stub_lib_def)
  show ?thesis
    using standard_hash_is_of_decoded_image [OF d run] d run enc by auto
qed

text \<open>
  C9. In every result that \<open>computeHashes\<close> returns without error,
  \<open>alpha_normalized_compact\<close> is the first 16 characters of \<open>alpha_normalized_hash\<close>.
\<close>

theorem compact_is_prefix_of_alpha_hash:
  assumes "computeHashes L s b = Return (Inr r, t)"
  shows "AlphaNormalizedCompact r = take 16 (AlphaNormalized r)"
proof -
  obtain i fmt where d: "image_Decode L b = Inr (i, fmt)" "ToLower fmt = ''png''"
    using computeHashes_Inr_decoded [OF assms] by blast
  show ?thesis
    using assms unfolding computeHashes_png [OF d]
    by (auto split: outcome.splits sum.splits)
qed

theorem compact_is_prefix_of_alpha_hash_witness:
  "computeHashes stub_lib [] [1] =
     Return (Inr scenario_response, [ImageObj scenario, NRGBAObj scenario_zeroed])
   \<and> AlphaNormalizedCompact scenario_response = take 16 (AlphaNormalized scenario_response)"
proof -
  have run: "computeHashes stub_lib [] [1] =
     Return (Inr scenario_response, [ImageObj scenario, NRGBAObj scenario_zeroed])"
    using stub_run [of "[]"] by simp
  show ?thesis
    using run compact_is_prefix_of_alpha_hash [OF run] by simp
qed

text \<open>
  C4. \<open>computeHashes\<close> returns an error and no fingerprint when the bytes do not decode,
  and when they decode with a format whose lower-case name is not \<open>png\<close>; a
  fingerprint is returned only for bytes that decode as PNG.
\<close>

theorem only_png_is_fingerprinted:
  "(\<forall>e. image_Decode L b = Inl e \<longrightarrow>
      computeHashes L s b = Return (Inl (Errorf ''image decode failed: '' e), s))
   \<and> (\<forall>i fmt. image_Decode L b = Inr (i, fmt) \<and> ToLower fmt \<noteq> ''png'' \<longrightarrow>
        computeHashes L s b =
          Return (Inl (ErrorString ''only PNG images are supported''), s @ [ImageObj i]))
   \<and> (\<forall>r t. computeHashes L s b = Return (Inr r, t) \<longrightarrow>
        (\<exists>i fmt. image_Decode L b = Inr (i, fmt) \<and> ToLower fmt = ''png''))"
proof (intro conjI allI impI)
  fix e assume "image_Decode L b = Inl e"
  then show "computeHashes L s b = Return (Inl (Errorf ''image decode failed: '' e), s)"
    by (simp add: computeHashes_def)
next
  fix i fmt assume "image_Decode L b = Inr (i, fmt) \<and> ToLower fmt \<noteq> ''png''"
  then show "computeHashes L s b =
      Return (Inl (ErrorString ''only PNG images are supported''), s @ [ImageObj i])"
    by (simp add: computeHashes_def alloc_def)
next
  fix r t assume "computeHashes L s b = Return (Inr r, t)"
  then show "\<exists>i fmt. image_Decode L b = Inr (i, fmt) \<and> ToLower fmt = ''png''"
    by (rule computeHashes_Inr_decoded)
qed

theorem only_png_is_fingerprinted_witness:
  "computeHashes stub_lib [] [7] =
     Return (Inl (Errorf ''image decode failed: '' (ErrorString ''image: unknown format'')), [])
   \<and> computeHashes stub_lib [] [3] =
       Return (Inl (ErrorString ''only PNG images are supported''), [ImageObj scenario])
   \<and> image_Decode stub_lib [1] = Inr (scenario, ''png'')"
proof -
  have a: "image_Decode stub_lib [7] = Inl (ErrorString ''image: unknown format'')"
    by (simp add: stub_lib_def stub_Decode_def)
  have b: "image_Decode stub_lib [3] = Inr (scenario, ''jpeg'') \<and> ToLower ''jpeg'' \<noteq> ''png''"
    by (simp add: stub_lib_def stub_Decode_def ToLower_def toLowerChar_def)
  have c: "computeHashes stub_lib [] [1] =
     Return (Inr scenario_response, [ImageObj scenario, NRGBAObj scenario_zeroed])"
    using stub_run [of "[]"] by simp
  have "\<exists>i fmt. image_Decode stub_lib [1] = Inr (i, fmt) \<and> ToLower fmt = ''png''"
    using only_png_is_fingerprinted [of stub_lib "[1]" "[]"] c by blast
  then have "image_Decode stub_lib [1] = Inr (scenario, ''png'')"
    by (simp add: stub_lib_def stub_Decode_def)
  then show ?thesis
    using only_png_is_fingerprinted [of stub_lib "[7]" "[]"] a
      only_png_is_fingerprinted [of stub_lib "[3]" "[]"] b
    by simp
qed

text \<open>
  C8. The fingerprint is a function of the input bytes alone: two invocations on the
  same bytes, whatever the objects on the heap at the time of each, return the same
  \<open>standard_hash\<close>, \<open>alpha_normalized_hash\<close> and \<open>alpha_normalized_compact\<close>.
\<close>

theorem computeHashes_deterministic:
  assumes "computeHashes L s1 b = Return (Inr r1, t1)"
    and "computeHashes L s2 b = Return (Inr r2, t2)"
  shows "Standard r1 = Standard r2 \<and> AlphaNormalized r1 = AlphaNormalized r2
         \<and> AlphaNormalizedCompact r1 = AlphaNormalizedCompact r2"
proof -
  obtain i fmt where d: "image_Decode L b = Inr (i, fmt)" "ToLower fmt = ''png''"
    using computeHashes_Inr_decoded [OF assms(1)] by blast
  have "r1 = r2"
    using assms unfolding computeHashes_png [OF d]
    by (auto split: outcome.splits sum.splits)
  then show ?thesis by simp
qed

theorem computeHashes_deterministic_witness:
  "computeHashes stub_lib [] [1] =
     Return (Inr scenario_response, [ImageObj scenario, NRGBAObj scenario_zeroed])
   \<and> computeHashes stub_lib [NRGBAObj scenario] [1] =
     Return (Inr scenario_response, [NRGBAObj scenario, ImageObj scenario, NRGBAObj scenario_zeroed])
   \<and> Standard scenario_response = Standard scenario_response
   \<and> AlphaNormalized scenario_response = AlphaNormalized scenario_response
   \<and> AlphaNormalizedCompact scenario_response = AlphaNormalizedCompact scenario_response"
proof -
  have r1: "computeHashes stub_lib [] [1] =
     Return (Inr scenario_response, [ImageObj scenario, NRGBAObj scenario_zeroed])"
    using stub_run [of "[]"] by simp
  have r2: "computeHashes stub_lib [NRGBAObj scenario] [1] =
     Return (Inr scenario_response, [NRGBAObj scenario, ImageObj scenario, NRGBAObj scenario_zeroed])"
    using stub_run [of "[NRGBAObj scenario]"] by simp
  show ?thesis
    using r1 r2 computeHashes_deterministic [OF r1 r2] by simp
qed

text \<open>
  C10. With a decoder and a \<open>draw.Draw\<close> that keep their guarantees, \<open>computeHashes\<close>
  returns on every input, never panics, and returns either an error or a result whose
  \<open>standard_hash\<close> and \<open>alpha_normalized_hash\<close> are 64 characters of \<open>hextable\<close>
  (\<open>0123456789abcdef\<close>)
  and whose \<open>alpha_normalized_compact\<close> is 16 such characters. The slice
  \<open>alphaHash[:16]\<close> is in bounds for every digest.
\<close>

theorem computeHashes_total_and_well_formed:
  assumes "png_decoder_ok L" "draw_in_place L"
  shows "(\<exists>res t. computeHashes L s b = Return (res, t) \<and>
            (case res of Inl e \<Rightarrow> True
             | Inr r \<Rightarrow>
                 length (Standard r) = 64 \<and> set (Standard r) \<subseteq> set hextable
                 \<and> length (AlphaNormalized r) = 64
                 \<and> set (AlphaNormalized r) \<subseteq> set hextable
                 \<and> length (AlphaNormalizedCompact r) = 16
                 \<and> set (AlphaNormalizedCompact r) \<subseteq> set hextable))
         \<and> slice_to (hashBuffer L d) 16 = Return (take 16 (hashBuffer L d))"
proof
  have hex: "set (hashBuffer L x) \<subseteq> set hextable" for x
    by (rule set_hashBuffer)
  have hex16: "set (take 16 (hashBuffer L x)) \<subseteq> set hextable" for x
    using hex [of x] set_take_subset [of 16 "hashBuffer L x"] by blast
  show "\<exists>res t. computeHashes L s b = Return (res, t) \<and>
            (case res of Inl e \<Rightarrow> True
             | Inr r \<Rightarrow>
                 length (Standard r) = 64 \<and> set (Standard r) \<subseteq> set hextable
                 \<and> length (AlphaNormalized r) = 64
                 \<and> set (AlphaNormalized r) \<subseteq> set hextable
                 \<and> length (AlphaNormalizedCompact r) = 16
                 \<and> set (AlphaNormalizedCompact r) \<subseteq> set hextable)"
  proof (cases "image_Decode L b")
    case (Inl e)
    then show ?thesis
      by (simp add: computeHashes_def)
  next
    case (Inr a)
    obtain i fmt where a: "a = (i, fmt)"
      by (cases a)
    show ?thesis
    proof (cases "ToLower fmt = ''png''")
      case False
      then show ?thesis
        using Inr a by (simp add: computeHashes_def alloc_def)
    next
      case True
      have d: "image_Decode L b = Inr (i, fmt)"
        using Inr a by simp
      have ob: "origin_bounds (Bounds L i)"
        using assms(1) d True unfolding png_decoder_ok_def by blast
      show ?thesis
        unfolding computeHashes_Return [OF d True ob assms(2)]
        by (cases "imaging_Encode_PNG L i") (simp_all add: length_hashBuffer hex hex16)
    qed
  qed
next
  show "slice_to (hashBuffer L d) 16 = Return (take 16 (hashBuffer L d))"
    by (rule slice_to_hashBuffer)
qed

theorem computeHashes_total_and_well_formed_witness:
  "png_decoder_ok stub_lib \<and> draw_in_place stub_lib
   \<and> computeHashes stub_lib [] [1] =
       Return (Inr scenario_response, [ImageObj scenario, NRGBAObj scenario_zeroed])
   \<and> length (Standard scenario_response) = 64
   \<and> length (AlphaNormalized scenario_response) = 64
   \<and> length (AlphaNormalizedCompact scenario_response) = 16"
proof -
  have run: "computeHashes stub_lib [] [1] =
     Return (Inr scenario_response, [ImageObj scenario, NRGBAObj scenario_zeroed])"
    using stub_run [of "[]"] by simp
  show ?thesis
    using computeHashes_total_and_well_formed [OF stub_png_decoder_ok stub_draw_in_place,
        of "[]" "[1]" "[]"]
      stub_png_decoder_ok stub_draw_in_place run
    by simp
qed

section \<open>The request handler: properties\<close>

text \<open>
  C5. The key of a URL request is \<open>url:\<close> followed by the parsed URL written back
  without its query string and fragment, and the key of an upload is \<open>sha256:\<close>
  followed by the hexadecimal digest of the uploaded bytes. The claim that two URLs
  which differ only in their query string get the same key fails on this input: for
  \<open>http://x/img.png?\<close> the parser sets \<open>ForceQuery\<close>, \<open>normalizeURL\<close> clears
  \<open>RawQuery\<close> and \<open>Fragment\<close> only, and the key keeps the question mark; for
  \<open>http://x/img.png?a=1\<close> the key has none. A fetch of each on an empty cache binds two
  different keys.
\<close>

theorem bare_question_mark_stays_in_cache_key:
  "normalizeURL ''http://x/img.png?'' = (''http://x/img.png?'', None)
   \<and> normalizeURL ''http://x/img.png?a=1'' = (''http://x/img.png'', None)
   \<and> handleHash stub_lib (answer_with 200) (url_request ''http://x/img.png?'') empty_state =
       (Return (writeJSON scenario_response),
        \<lparr>cache = [''url:http://x/img.png?'' \<mapsto> scenario_response],
         heap = [ImageObj scenario, NRGBAObj scenario_zeroed]\<rparr>)
   \<and> handleHash stub_lib (answer_with 200) (url_request ''http://x/img.png?a=1'') empty_state =
       (Return (writeJSON scenario_response),
        \<lparr>cache = [''url:http://x/img.png'' \<mapsto> scenario_response],
         heap = [ImageObj scenario, NRGBAObj scenario_zeroed]\<rparr>)"
  using fetch_ok [OF _ normalizeURL_bare] fetch_ok [OF _ normalizeURL_query]
  by (simp add: normalizeURL_bare normalizeURL_query)

text \<open>
  C6. Whenever the registered handler replies with an error, the cache is the one it
  found; and when the cache has changed, \<open>computeHashes\<close> had returned a fingerprint,
  that fingerprint is the reply, and it is the one value bound, under one key.
\<close>

theorem cache_changes_only_after_success:
  assumes "recoverMiddleware (handleHash L get r) st = (reply, st')"
  shows "(\<forall>title details code. reply = http_Error title details code \<longrightarrow> cache st' = cache st)
         \<and> (cache st' \<noteq> cache st \<longrightarrow>
              (\<exists>key bytes hashes h.
                 computeHashes L (heap st) bytes = Return (Inr hashes, h)
                 \<and> reply = writeJSON hashes \<and> cache st' = (cache st)(key \<mapsto> hashes)))"
proof -
  from recoverMiddleware_cases [OF assms]
  consider rec where "handleHash L get r st = (Panic rec, st')"
      "reply = http_Error ''Internal server error'' rec 500"
    | "handleHash L get r st = (Return reply, st')"
    by blast
  then show ?thesis
  proof cases
    case 1
    then have "cache st' = cache st"
      using handleHash_cases [OF 1(1)] by auto
    then show ?thesis by simp
  next
    case 2
    show ?thesis
      using handleHash_cases [OF 2] by auto
  qed
qed

theorem cache_changes_only_after_success_witness:
  "recoverMiddleware (handleHash stub_lib (answer_with 200) (upload_request [3])) empty_state =
     (http_Error ''Failed to compute hashes'' (ErrorString ''only PNG images are supported'') 500,
      \<lparr>cache = Map.empty, heap = [ImageObj scenario]\<rparr>)
   \<and> cache \<lparr>cache = Map.empty, heap = [ImageObj scenario]\<rparr> = cache empty_state
   \<and> recoverMiddleware (handleHash stub_lib (answer_with 200) (upload_request [1])) empty_state =
       (writeJSON scenario_response,
        \<lparr>cache = [''sha256:'' @ sha256Hex stub_lib [1] \<mapsto> scenario_response],
         heap = [ImageObj scenario, NRGBAObj scenario_zeroed]\<rparr>)
   \<and> computeHashes stub_lib (heap empty_state) [1] =
       Return (Inr scenario_response, [ImageObj scenario, NRGBAObj scenario_zeroed])"
proof -
  have a: "recoverMiddleware (handleHash stub_lib (answer_with 200) (upload_request [3])) empty_state =
     (http_Error ''Failed to compute hashes'' (ErrorString ''only PNG images are supported'') 500,
      \<lparr>cache = Map.empty, heap = [ImageObj scenario]\<rparr>)"
    by (simp add: recoverMiddleware_def upload_jpeg)
  have b: "recoverMiddleware (handleHash stub_lib (answer_with 200) (upload_request [1])) empty_state =
       (writeJSON scenario_response,
        \<lparr>cache = [''sha256:'' @ sha256Hex stub_lib [1] \<mapsto> scenario_response],
         heap = [ImageObj scenario, NRGBAObj scenario_zeroed]\<rparr>)"
    by (simp add: recoverMiddleware_def upload_png)
  have c: "computeHashes stub_lib (heap empty_state) [1] =
       Return (Inr scenario_response, [ImageObj scenario, NRGBAObj scenario_zeroed])"
    using stub_run [of "[]"] by (simp add: empty_state_def)
  have "cache \<lparr>cache = Map.empty, heap = [ImageObj scenario]\<rparr> = cache empty_state"
    using cache_changes_only_after_success [OF a] by blast
  then show ?thesis
    using a b c by simp
qed

text \<open>
  C7. A URL request whose fetch ends with status 404 and no error: the condition
  \<open>err != nil || resp.StatusCode != 200\<close> holds with \<open>err\<close> nil, \<open>err.Error()\<close> panics
  before \<open>http.Error\<close> is called, and \<open>recoverMiddleware\<close> replies with
  \<open>Internal server error\<close> and status 500, not with \<open>Failed to fetch image from URL\<close>.
\<close>

theorem fetch_status_404_is_reported_as_internal_error:
  "recoverMiddleware (handleHash stub_lib (answer_with 404) (url_request ''http://x/img.png''))
     empty_state
   = (http_Error ''Internal server error'' nil_dereference 500, empty_state)"
proof -
  have "handleHash stub_lib (answer_with 404) (url_request ''http://x/img.png'') empty_state
          = (Panic nil_dereference, empty_state)"
    by (rule fetch_not_200 [where k = "''http://x/img.png''"
            and rsp = "\<lparr>StatusCode = 404, Body = Inr [1]\<rparr>"])
       (simp_all add: url_request_def empty_state_def answer_with_def normalizeURL_plain)
  then show ?thesis
    by (simp add: recoverMiddleware_def)
qed

end
